theory Spec2Isabelle
  imports
    Main
    "HOL-Library.Word"
    "HOL-Library.Multiset"
    "HOL-Library.Char_ord"
    "HOL-Library.List_Lexorder"
begin

unbundle bit_operations_syntax

section \<open>Data model\<close>

text \<open>
  Go distinguishes a nil slice (or map) from an empty one, and the hashes are to treat
  the two alike: a slice is therefore an optional list, \<open>None\<close> being nil. A
  \<^verbatim>\<open>map[string]string\<close> is an optional association list with pairwise different keys;
  the order of the list is one order in which \<^verbatim>\<open>range\<close> may visit the entries.
  Strings are byte sequences, as in Go.
\<close>

type_synonym 'a slice = "'a list option"

definition len :: "'a slice \<Rightarrow> nat" where
  "len s = (case s of None \<Rightarrow> 0 | Some xs \<Rightarrow> length xs)"

text \<open>The elements a \<^verbatim>\<open>range\<close> loop visits: none for a nil slice.\<close>

definition elems :: "'a slice \<Rightarrow> 'a list" where
  "elems s = (case s of None \<Rightarrow> [] | Some xs \<Rightarrow> xs)"

text \<open>\<^verbatim>\<open>m[k]\<close> on a Go map: the zero value, the empty string, when the key is absent.\<close>

definition index :: "(string \<times> string) slice \<Rightarrow> string \<Rightarrow> string" where
  "index m k = (case map_of (elems m) k of None \<Rightarrow> [] | Some v \<Rightarrow> v)"

text \<open>\<^verbatim>\<open>_, exists := m[k]\<close>.\<close>

definition has_key :: "(string \<times> string) slice \<Rightarrow> string \<Rightarrow> bool" where
  "has_key m k = (map_of (elems m) k \<noteq> None)"

record Port =
  HostIP :: string
  HostPort :: "16 word"
  ContainerPort :: "16 word"
  Protocol :: string

text \<open>The fields \<^verbatim>\<open>Name\<close> and \<^verbatim>\<open>ID\<close> of \<^verbatim>\<open>Network\<close> are \<open>NetName\<close> and \<open>NetID\<close> here.\<close>

record Network =
  NetName :: string
  NetID :: string
  IPAddress :: string
  IP6Address :: string
  Gateway :: string
  Aliases :: "string slice"

record Container =
  ID :: string
  Name :: string
  Image :: string
  State :: string
  Labels :: "(string \<times> string) slice"
  Networks :: "Network slice"
  Ports :: "Port slice"

section \<open>Structural hashing\<close>

text \<open>
  \<^verbatim>\<open>hash/fnv\<close>'s 64-bit FNV-1a, from the Go standard library: the state starts at
  \<open>offset64\<close>, and \<^verbatim>\<open>Write\<close> xors each byte in and multiplies by \<open>prime64\<close>, modulo
  \<open>2 ^ 64\<close>.
\<close>

definition offset64 :: "64 word" where
  "offset64 = 14695981039346656037"

definition prime64 :: "64 word" where
  "prime64 = 1099511628211"

fun Write :: "64 word \<Rightarrow> 8 word list \<Rightarrow> 64 word" where
  "Write h [] = h"
| "Write h (c # data) = Write ((h XOR ucast c) * prime64) data"

text \<open>\<^verbatim>\<open>[]byte(s)\<close>.\<close>

definition bytes :: "string \<Rightarrow> 8 word list" where
  "bytes s = map of_char s"

text \<open>\<^verbatim>\<open>binary.Write(h, binary.LittleEndian, v)\<close> for an unsigned integer of \<open>n\<close> bytes.\<close>

definition le_bytes :: "nat \<Rightarrow> 'a::len word \<Rightarrow> 8 word list" where
  "le_bytes n v = map (\<lambda>i. ucast (drop_bit (8 * i) v)) [0..<n]"

definition Port_hash :: "Port \<Rightarrow> 64 word" where
  "Port_hash p =
     (let h = offset64;
          h = Write h (bytes (HostIP p));
          h = Write h (le_bytes 2 (HostPort p));
          h = Write h (le_bytes 2 (ContainerPort p));
          h = Write h (bytes (Protocol p))
      in h)"

text \<open>\<^verbatim>\<open>for _, s := range xs { h.Write([]byte(s)) }\<close>.\<close>

fun Write_all :: "64 word \<Rightarrow> string list \<Rightarrow> 64 word" where
  "Write_all h [] = h"
| "Write_all h (s # ss) = Write_all (Write h (bytes s)) ss"

text \<open>\<^verbatim>\<open>sort.Strings\<close> orders strings bytewise, which is the lexicographic order on \<open>string\<close>.\<close>

definition Network_hash :: "Network \<Rightarrow> 64 word" where
  "Network_hash n =
     (let h = offset64;
          h = Write h (bytes (NetName n));
          h = Write h (bytes (NetID n));
          h = Write h (bytes (IPAddress n));
          h = Write h (bytes (IP6Address n));
          h = Write h (bytes (Gateway n))
      in if len (Aliases n) > 0
         then (let aliases = sort (elems (Aliases n)) in Write_all h aliases)
         else h)"

text \<open>
  \<^verbatim>\<open>for _, k := range keys { h.Write([]byte(k)); h.Write([]byte(c.Labels[k])) }\<close>.
\<close>

fun Write_labels :: "64 word \<Rightarrow> (string \<times> string) slice \<Rightarrow> string list \<Rightarrow> 64 word" where
  "Write_labels h m [] = h"
| "Write_labels h m (k # keys) =
     Write_labels (Write (Write h (bytes k)) (bytes (index m k))) m keys"

text \<open>\<^verbatim>\<open>for _, x := range xs { acc ^= x.hash() }\<close>, with the accumulator starting at \<open>acc\<close>.\<close>

fun xor_fold :: "('a \<Rightarrow> 64 word) \<Rightarrow> 64 word \<Rightarrow> 'a list \<Rightarrow> 64 word" where
  "xor_fold f acc [] = acc"
| "xor_fold f acc (x # xs) = xor_fold f (acc XOR f x) xs"

definition Container_hash :: "Container \<Rightarrow> 64 word" where
  "Container_hash c =
     (let h = offset64;
          h = Write h (bytes (ID c));
          h = Write h (bytes (Name c));
          h = Write h (bytes (Image c));
          h = Write h (bytes (State c));
          h = (if len (Labels c) > 0
               then (let keys = map fst (elems (Labels c));
                         keys = sort keys
                     in Write_labels h (Labels c) keys)
               else h);
          networksHash = xor_fold Network_hash 0 (elems (Networks c));
          h = Write h (le_bytes 8 networksHash);
          portsHash = xor_fold Port_hash 0 (elems (Ports c));
          h = Write h (le_bytes 8 portsHash)
      in h)"

definition computeHash :: "Container list \<Rightarrow> 64 word" where
  "computeHash containers = xor_fold Container_hash 0 containers"

section \<open>Filters\<close>

type_synonym Filter = "Container \<Rightarrow> bool"

text \<open>\<^verbatim>\<open>All\<close>, \<^verbatim>\<open>Any\<close> and \<^verbatim>\<open>Not\<close>; the loops return at the first deciding filter.\<close>

fun All_f :: "Filter list \<Rightarrow> Filter" where
  "All_f [] c = True"
| "All_f (f # filters) c = (if \<not> f c then False else All_f filters c)"

fun Any_f :: "Filter list \<Rightarrow> Filter" where
  "Any_f [] c = False"
| "Any_f (f # filters) c = (if f c then True else Any_f filters c)"

definition Not_f :: "Filter \<Rightarrow> Filter" where
  "Not_f f c = (\<not> f c)"

definition LabelExists :: "string \<Rightarrow> Filter" where
  "LabelExists key c = has_key (Labels c) key"

definition LabelEquals :: "string \<Rightarrow> string \<Rightarrow> Filter" where
  "LabelEquals key value c = (index (Labels c) key = value)"

definition StateEquals :: "string \<Rightarrow> Filter" where
  "StateEquals state c = (State c = state)"

text \<open>\<^verbatim>\<open>runningNoLabels\<close> of the filter tests.\<close>

definition runningNoLabels :: Container where
  "runningNoLabels =
     \<lparr>ID = ''4'', Name = '''', Image = '''', State = ''running'',
      Labels = Some [], Networks = None, Ports = None\<rparr>"

section \<open>The monitor\<close>

text \<open>
  Errors are values: those of the Docker client, the two errors of a context, and
  \<^verbatim>\<open>fmt.Errorf("msg: %w", err)\<close>, which wraps an error under a message.
\<close>

datatype error =
    ClientError string
  | Canceled
  | DeadlineExceeded
  | Wrapped string error

text \<open>
  The state source at one moment: what \<^verbatim>\<open>ContainerList\<close> returns (the IDs of the
  summaries, or an error) and what \<^verbatim>\<open>ContainerInspect\<close> returns for an ID. The type
  \<open>'i\<close> is the Docker SDK's \<^verbatim>\<open>container.InspectResponse\<close>.
\<close>

record 'i DockerClient =
  ContainerList :: "error + string list"
  ContainerInspect :: "string \<Rightarrow> error + 'i"

text \<open>Durations and clock readings are nanoseconds; \<^verbatim>\<open>time.Duration\<close> is an \<^verbatim>\<open>int64\<close>.\<close>

definition wrap64 :: "int \<Rightarrow> int" where
  "wrap64 x = (x + 2 ^ 63) mod 2 ^ 64 - 2 ^ 63"

definition Minute :: int where
  "Minute = 60 * 1000000000"

record reconnectConfig =
  MinDelay :: int
  MaxDelay :: int
  MaxRetries :: int

text \<open>
  What the monitor does to the outside, in order: subscribing to the event stream,
  listing the containers, storing a new \<^verbatim>\<open>previousHash\<close>, calling the callback, and
  sleeping out a backoff delay. The calls of \<^verbatim>\<open>Log\<close> are left out.
\<close>

datatype effect =
    Subscribed
  | Listed
  | Stored "64 word"
  | Called "Container list"
  | Slept int

text \<open>
  The \<^verbatim>\<open>monitor\<close> struct. The context and the client are the environment and are
  given to the functions below; the callback's invocations are recorded in \<open>effects\<close>.
  \<open>convertContainer\<close> is the function of that name, whose argument type comes from the
  Docker SDK: it is a parameter here. \<open>filterF\<close> is the field \<^verbatim>\<open>filter\<close>, \<open>None\<close> being nil.
\<close>

record 'i monitor =
  convertContainer :: "'i \<Rightarrow> Container"
  filterF :: "Filter option"
  debounce :: int
  maxDebounceTime :: int
  maxIdleTime :: int
  reconnect :: "reconnectConfig option"
  previousHash :: "64 word option"
  effects :: "effect list"

text \<open>The loop of \<^verbatim>\<open>gatherContainers\<close> over the summaries; a failed inspection continues.\<close>

fun inspect_each :: "'i monitor \<Rightarrow> 'i DockerClient \<Rightarrow> string list \<Rightarrow> Container list \<Rightarrow> Container list" where
  "inspect_each m cl [] containers = containers"
| "inspect_each m cl (summary # summaries) containers =
     (case ContainerInspect cl summary of
        Inl err \<Rightarrow> inspect_each m cl summaries containers
      | Inr inspect \<Rightarrow>
          (let c = convertContainer m inspect in
           if (case filterF m of None \<Rightarrow> True | Some f \<Rightarrow> f c)
           then inspect_each m cl summaries (containers @ [c])
           else inspect_each m cl summaries containers))"

definition gatherContainers :: "'i monitor \<Rightarrow> 'i DockerClient \<Rightarrow> (error + Container list) \<times> 'i monitor" where
  "gatherContainers m cl =
     (let m = m\<lparr>effects := effects m @ [Listed]\<rparr> in
      case ContainerList cl of
        Inl err \<Rightarrow> (Inl err, m)
      | Inr summaries \<Rightarrow> (Inr (inspect_each m cl summaries []), m))"

definition gather :: "'i monitor \<Rightarrow> 'i DockerClient \<Rightarrow> error option \<times> 'i monitor" where
  "gather m cl =
     (case gatherContainers m cl of
        (Inl err, m) \<Rightarrow> (Some (Wrapped ''failed to refresh containers'' err), m)
      | (Inr containers, m) \<Rightarrow>
          (let currentHash = computeHash containers in
           if (case previousHash m of None \<Rightarrow> False | Some p \<Rightarrow> currentHash = p)
           then (None, m)
           else (let m = m\<lparr>previousHash := Some currentHash,
                            effects := effects m @ [Stored currentHash]\<rparr>;
                     m = m\<lparr>effects := effects m @ [Called containers]\<rparr>
                 in (None, m))))"

subsection \<open>The event loop\<close>

text \<open>
  The local state of \<^verbatim>\<open>runOnce\<close>. A timer is the clock reading at which it fires, or
  \<open>None\<close> when it is stopped or has been received from (the timers of Go 1.23 and later:
  nothing stale is left in the channel after \<^verbatim>\<open>Stop\<close> or \<^verbatim>\<open>Reset\<close>). The ticker is
  the reading of its next tick.
\<close>

record gate =
  debounceTimer :: "int option"
  maxDebounceTimer :: "int option"
  idleTicker :: int
  waiting :: bool

text \<open>The cases of the \<^verbatim>\<open>select\<close>, with the value received.\<close>

datatype select_case =
    CtxDone error
  | ErrCh "error option"
  | EventCh
  | DebounceTimerC
  | MaxDebounceTimerC
  | IdleTickerC

text \<open>
  One return of the \<^verbatim>\<open>select\<close>: the clock reading, the case taken, and the state
  source as it is while that case runs.
\<close>

record 'i wakeup =
  now :: int
  received :: select_case
  client :: "'i DockerClient"

text \<open>A timer's channel can be received from once the clock has reached its reading.\<close>

definition select_ready :: "gate \<Rightarrow> int \<Rightarrow> select_case \<Rightarrow> bool" where
  "select_ready g t c =
     (case c of
        DebounceTimerC \<Rightarrow> (case debounceTimer g of None \<Rightarrow> False | Some d \<Rightarrow> d \<le> t)
      | MaxDebounceTimerC \<Rightarrow> (case maxDebounceTimer g of None \<Rightarrow> False | Some d \<Rightarrow> d \<le> t)
      | IdleTickerC \<Rightarrow> idleTicker g \<le> t
      | _ \<Rightarrow> True)"

text \<open>The next tick of a ticker of period \<open>p\<close> whose tick due at \<open>d\<close> is taken at \<open>t\<close>.\<close>

definition next_tick :: "int \<Rightarrow> int \<Rightarrow> int \<Rightarrow> int" where
  "next_tick d p t = d + p * (1 + (t - d) div p)"

text \<open>
  How a call ends: it returned (with an error or nil), it panicked, the script asked
  for a case the \<^verbatim>\<open>select\<close> cannot take, the script ended with the loop waiting in
  its \<^verbatim>\<open>select\<close>, or it ended with the supervisor about to start a session.
\<close>

datatype status =
    Returned "error option"
  | Panicked
  | NotReady
  | Selecting gate
  | Reconnecting

text \<open>One pass of the loop of \<^verbatim>\<open>runOnce\<close>. The body of a case takes no time.\<close>

definition select_step :: "'i monitor \<Rightarrow> gate \<Rightarrow> 'i wakeup \<Rightarrow> status \<times> 'i monitor" where
  "select_step m g w =
     (if \<not> select_ready g (now w) (received w) then (NotReady, m)
      else case received w of
        CtxDone e \<Rightarrow> (Returned (Some e), m)
      | ErrCh err \<Rightarrow>
          (case err of
             Some e \<Rightarrow> (Returned (Some (Wrapped ''failed to stream events'' e)), m)
           | None \<Rightarrow> (Returned None, m))
      | EventCh \<Rightarrow>
          (let g = g\<lparr>idleTicker := now w + maxIdleTime m\<rparr> in
           if waiting g
           then (Selecting (g\<lparr>debounceTimer := Some (now w + debounce m)\<rparr>), m)
           else (Selecting (g\<lparr>debounceTimer := Some (now w + debounce m),
                              maxDebounceTimer := Some (now w + maxDebounceTime m),
                              waiting := True\<rparr>), m))
      | DebounceTimerC \<Rightarrow>
          (case gather m (client w) of
             (Some err, m) \<Rightarrow> (Returned (Some err), m)
           | (None, m) \<Rightarrow>
               (Selecting (g\<lparr>debounceTimer := None,
                             maxDebounceTimer := None,
                             idleTicker := now w + maxIdleTime m,
                             waiting := False\<rparr>), m))
      | MaxDebounceTimerC \<Rightarrow>
          (case gather m (client w) of
             (Some err, m) \<Rightarrow> (Returned (Some err), m)
           | (None, m) \<Rightarrow>
               (Selecting (g\<lparr>maxDebounceTimer := None,
                             debounceTimer := None,
                             idleTicker := now w + maxIdleTime m,
                             waiting := False\<rparr>), m))
      | IdleTickerC \<Rightarrow>
          (case gather m (client w) of
             (Some err, m) \<Rightarrow> (Returned (Some err), m)
           | (None, m) \<Rightarrow>
               (let g = g\<lparr>idleTicker := next_tick (idleTicker g) (maxIdleTime m) (now w)\<rparr> in
                if waiting g
                then (Selecting (g\<lparr>debounceTimer := None,
                                   maxDebounceTimer := None,
                                   waiting := False\<rparr>), m)
                else (Selecting g, m))))"

fun select_loop :: "'i monitor \<Rightarrow> gate \<Rightarrow> 'i wakeup list \<Rightarrow> status \<times> 'i monitor" where
  "select_loop m g [] = (Selecting g, m)"
| "select_loop m g (w # ws) =
     (case select_step m g w of
        (Selecting g, m) \<Rightarrow> select_loop m g ws
      | r \<Rightarrow> r)"

text \<open>
  One session as its environment scripts it: the state source during the initial
  \<^verbatim>\<open>gather\<close>, the clock when the timers and the ticker are made, the returns of the
  \<^verbatim>\<open>select\<close>, and what the supervisor observes afterwards: \<^verbatim>\<open>time.Since(startTime)\<close>,
  \<^verbatim>\<open>m.ctx.Err()\<close>, and the context's error if \<^verbatim>\<open>ctx.Done()\<close> ends the backoff sleep.
\<close>

record 'i attempt =
  initial :: "'i DockerClient"
  created :: int
  wakeups :: "'i wakeup list"
  elapsed :: int
  ctxErr :: "error option"
  backoffCtx :: "error option"

text \<open>\<^verbatim>\<open>time.NewTicker\<close> panics on a period that is not positive.\<close>

definition runOnce :: "'i monitor \<Rightarrow> 'i attempt \<Rightarrow> status \<times> 'i monitor" where
  "runOnce m a =
     (let m = m\<lparr>effects := effects m @ [Subscribed]\<rparr> in
      case gather m (initial a) of
        (Some err, m) \<Rightarrow> (Returned (Some err), m)
      | (None, m) \<Rightarrow>
          if maxIdleTime m \<le> 0 then (Panicked, m)
          else select_loop m
                 \<lparr>debounceTimer = None, maxDebounceTimer = None,
                  idleTicker = created a + maxIdleTime m, waiting = False\<rparr>
                 (wakeups a))"

text \<open>
  The loop of \<^verbatim>\<open>runWithRetry\<close>, with its variables \<open>attempt\<close> and \<open>delay\<close>, over
  the scripts of the sessions to come.
\<close>

fun retry_loop :: "'i monitor \<Rightarrow> reconnectConfig \<Rightarrow> int \<Rightarrow> int \<Rightarrow> 'i attempt list \<Rightarrow> status \<times> 'i monitor" where
  "retry_loop m rc attempt delay [] = (Reconnecting, m)"
| "retry_loop m rc attempt delay (a # as) =
     (case runOnce m a of
        (Returned err, m) \<Rightarrow>
          (case ctxErr a of
             Some e \<Rightarrow> (Returned (Some e), m)
           | None \<Rightarrow>
               (let (attempt, delay) =
                      (if elapsed a \<ge> Minute then (0, MinDelay rc) else (attempt, delay));
                    attempt = wrap64 (attempt + 1)
                in if MaxRetries rc > 0 \<and> attempt > MaxRetries rc then (Returned err, m)
                   else (case backoffCtx a of
                           Some e \<Rightarrow> (Returned (Some e), m)
                         | None \<Rightarrow>
                             (let m = m\<lparr>effects := effects m @ [Slept delay]\<rparr>;
                                  delay = wrap64 (delay * 2);
                                  delay = (if delay > MaxDelay rc then MaxDelay rc else delay)
                              in retry_loop m rc attempt delay as))))
      | r \<Rightarrow> r)"

definition runWithRetry :: "'i monitor \<Rightarrow> reconnectConfig \<Rightarrow> 'i attempt list \<Rightarrow> status \<times> 'i monitor" where
  "runWithRetry m rc as = retry_loop m rc 0 (MinDelay rc) as"

text \<open>\<^verbatim>\<open>run\<close>, given the script of the first session and those of the later ones.\<close>

definition run :: "'i monitor \<Rightarrow> 'i attempt \<Rightarrow> 'i attempt list \<Rightarrow> status \<times> 'i monitor" where
  "run m a as =
     (case reconnect m of
        Some rc \<Rightarrow> runWithRetry m rc (a # as)
      | None \<Rightarrow> runOnce m a)"

section \<open>Notions the properties are stated with\<close>

text \<open>
  What a network, a container and a collection of containers are when order does not
  count: the aliases, the label entries, the networks, the ports and the containers as
  multisets. Two collections have the same \<open>Collection_abs\<close> exactly when one is made
  from the other by permuting the collection, each container's label entries, networks
  and ports, and each network's aliases (a nil collection counting as an empty one).
\<close>

definition Network_abs ::
  "Network \<Rightarrow> string \<times> string \<times> string \<times> string \<times> string \<times> string multiset" where
  "Network_abs n =
     (NetName n, NetID n, IPAddress n, IP6Address n, Gateway n, mset (elems (Aliases n)))"

definition Container_abs ::
  "Container \<Rightarrow> string \<times> string \<times> string \<times> string \<times> (string \<times> string) multiset \<times>
     (string \<times> string \<times> string \<times> string \<times> string \<times> string multiset) multiset \<times> Port multiset" where
  "Container_abs c =
     (ID c, Name c, Image c, State c, mset (elems (Labels c)),
      image_mset Network_abs (mset (elems (Networks c))), mset (elems (Ports c)))"

definition Collection_abs where
  "Collection_abs containers = image_mset Container_abs (mset containers)"

text \<open>The label entries of a container are those of a map: no key occurs twice.\<close>

definition labels_ok :: "Container \<Rightarrow> bool" where
  "labels_ok c = distinct (map fst (elems (Labels c)))"

text \<open>
  The two variants of a container that differ in nothing but nil against empty: in the
  first every collection without elements is nil, in the second it is empty.
\<close>

definition to_nil :: "'a slice \<Rightarrow> 'a slice" where
  "to_nil s = (if len s = 0 then None else s)"

definition to_empty :: "'a slice \<Rightarrow> 'a slice" where
  "to_empty s = (if len s = 0 then Some [] else s)"

definition Network_nil_variant :: "Network \<Rightarrow> Network" where
  "Network_nil_variant n = n\<lparr>Aliases := to_nil (Aliases n)\<rparr>"

definition Network_empty_variant :: "Network \<Rightarrow> Network" where
  "Network_empty_variant n = n\<lparr>Aliases := to_empty (Aliases n)\<rparr>"

definition nil_variant :: "Container \<Rightarrow> Container" where
  "nil_variant c =
     c\<lparr>Labels := to_nil (Labels c),
       Networks := to_nil (map_option (map Network_nil_variant) (Networks c)),
       Ports := to_nil (Ports c)\<rparr>"

definition empty_variant :: "Container \<Rightarrow> Container" where
  "empty_variant c =
     c\<lparr>Labels := to_empty (Labels c),
       Networks := to_empty (map_option (map Network_empty_variant) (Networks c)),
       Ports := to_empty (Ports c)\<rparr>"

text \<open>The callback's invocations and the backoff sleeps among the effects, in order.\<close>

fun calls :: "effect list \<Rightarrow> Container list list" where
  "calls [] = []"
| "calls (Called containers # es) = containers # calls es"
| "calls (e # es) = calls es"

fun sleeps :: "effect list \<Rightarrow> int list" where
  "sleeps [] = []"
| "sleeps (Slept d # es) = d # sleeps es"
| "sleeps (e # es) = sleeps es"

text \<open>The cases of the \<^verbatim>\<open>select\<close> that wait for a timer; each of them refreshes.\<close>

definition timer_case :: "select_case \<Rightarrow> bool" where
  "timer_case c =
     (case c of DebounceTimerC \<Rightarrow> True | MaxDebounceTimerC \<Rightarrow> True | IdleTickerC \<Rightarrow> True
      | _ \<Rightarrow> False)"

text \<open>\<open>n\<close> arrivals, the first at \<open>t0\<close> and each \<open>gap\<close> after the one before.\<close>

definition burst :: "int \<Rightarrow> int \<Rightarrow> nat \<Rightarrow> 'i DockerClient \<Rightarrow> 'i wakeup list" where
  "burst t0 gap n cl =
     map (\<lambda>k. \<lparr>now = t0 + gap * int k, received = EventCh, client = cl\<rparr>) [0..<n]"

text \<open>
  The state of the loop that \<open>n\<close> such arrivals leave behind, \<open>n\<close> being positive: the debounce
  timer and the idle ticker count from the last arrival, the max-debounce timer from the
  first. And the state of the loop when no arrival is pending, as \<^verbatim>\<open>runOnce\<close> starts it.
\<close>

definition after_burst :: "'i monitor \<Rightarrow> int \<Rightarrow> int \<Rightarrow> nat \<Rightarrow> gate" where
  "after_burst m t0 gap n =
     \<lparr>debounceTimer = Some (t0 + gap * (int n - 1) + debounce m),
      maxDebounceTimer = Some (t0 + maxDebounceTime m),
      idleTicker = t0 + gap * (int n - 1) + maxIdleTime m,
      waiting = True\<rparr>"

definition idle_gate :: "int \<Rightarrow> gate" where
  "idle_gate tick =
     \<lparr>debounceTimer = None, maxDebounceTimer = None, idleTicker = tick, waiting = False\<rparr>"

text \<open>The identities whose inspection succeeds, and the containers the filter lets pass.\<close>

definition inspectable :: "'i DockerClient \<Rightarrow> string \<Rightarrow> bool" where
  "inspectable cl summary = (case ContainerInspect cl summary of Inl err \<Rightarrow> False | Inr i \<Rightarrow> True)"

definition accepted :: "'i monitor \<Rightarrow> Container \<Rightarrow> bool" where
  "accepted m c = (case filterF m of None \<Rightarrow> True | Some f \<Rightarrow> f c)"

text \<open>
  A session that fails rapidly: \<^verbatim>\<open>runOnce\<close> returns, less than a minute has passed, and
  the context is not cancelled, neither then nor during the backoff sleep.
\<close>

definition returns :: "status \<Rightarrow> bool" where
  "returns s = (case s of Returned err \<Rightarrow> True | _ \<Rightarrow> False)"

definition fails_rapidly :: "'i monitor \<Rightarrow> 'i attempt \<Rightarrow> bool" where
  "fails_rapidly m a =
     (returns (fst (runOnce m a)) \<and> elapsed a < Minute \<and> ctxErr a = None \<and> backoffCtx a = None)"

text \<open>Two monitors with the same configuration: they differ in their state at most.\<close>

definition same_config :: "'i monitor \<Rightarrow> 'i monitor \<Rightarrow> bool" where
  "same_config m m' =
     (convertContainer m = convertContainer m' \<and> filterF m = filterF m' \<and>
      debounce m = debounce m' \<and> maxDebounceTime m = maxDebounceTime m' \<and>
      maxIdleTime m = maxIdleTime m' \<and> reconnect m = reconnect m')"

section \<open>Test data\<close>

text \<open>Containers after those of the hash tests: \<open>web2\<close> is \<open>web1\<close> with every order changed.\<close>

definition bridge1 :: Network where
  "bridge1 =
     \<lparr>NetName = ''bridge'', NetID = ''net1'', IPAddress = ''172.17.0.2'', IP6Address = [],
      Gateway = ''172.17.0.1'', Aliases = Some [''web'', ''api'', ''service'']\<rparr>"

definition bridge2 :: Network where
  "bridge2 =
     \<lparr>NetName = ''bridge'', NetID = ''net1'', IPAddress = ''172.17.0.2'', IP6Address = [],
      Gateway = ''172.17.0.1'', Aliases = Some [''api'', ''service'', ''web'']\<rparr>"

definition custom :: Network where
  "custom =
     \<lparr>NetName = ''custom'', NetID = ''net2'', IPAddress = [], IP6Address = [],
      Gateway = [], Aliases = None\<rparr>"

definition http :: Port where
  "http = \<lparr>HostIP = [], HostPort = 8080, ContainerPort = 80, Protocol = ''tcp''\<rparr>"

definition https :: Port where
  "https = \<lparr>HostIP = [], HostPort = 8443, ContainerPort = 443, Protocol = ''tcp''\<rparr>"

definition web1 :: Container where
  "web1 =
     \<lparr>ID = ''container123'', Name = ''web'', Image = ''nginx:latest'', State = ''running'',
      Labels = Some [(''a'', ''1''), (''b'', ''2''), (''c'', ''3'')],
      Networks = Some [bridge1, custom], Ports = Some [http, https]\<rparr>"

definition web2 :: Container where
  "web2 =
     \<lparr>ID = ''container123'', Name = ''web'', Image = ''nginx:latest'', State = ''running'',
      Labels = Some [(''c'', ''3''), (''a'', ''1''), (''b'', ''2'')],
      Networks = Some [custom, bridge2], Ports = Some [https, http]\<rparr>"

definition exited :: Container where
  "exited =
     \<lparr>ID = ''c2'', Name = [], Image = [], State = ''exited'',
      Labels = None, Networks = None, Ports = None\<rparr>"

text \<open>
  State sources after the mock client of the tests; the inspection response is given as
  the container it converts to. In \<open>docker1\<close> the identity \<open>gone\<close> is listed and cannot
  be inspected; \<open>docker2\<close> has the containers of \<open>docker1\<close> in another order.
\<close>

definition docker1 :: "Container DockerClient" where
  "docker1 =
     \<lparr>ContainerList = Inr [''container123'', ''gone'', ''c2''],
      ContainerInspect = (\<lambda>containerID.
        if containerID = ''container123'' then Inr web1
        else if containerID = ''c2'' then Inr exited
        else Inl (ClientError ''container not found''))\<rparr>"

definition docker2 :: "Container DockerClient" where
  "docker2 =
     \<lparr>ContainerList = Inr [''c2'', ''container123''],
      ContainerInspect = (\<lambda>containerID.
        if containerID = ''container123'' then Inr web2
        else if containerID = ''c2'' then Inr exited
        else Inl (ClientError ''container not found''))\<rparr>"

definition docker_down :: "Container DockerClient" where
  "docker_down =
     \<lparr>ContainerList = Inl (ClientError ''docker api unreachable''),
      ContainerInspect = (\<lambda>containerID. Inl (ClientError ''docker api unreachable''))\<rparr>"

text \<open>The monitor \<^verbatim>\<open>Run\<close> makes from \<^verbatim>\<open>defaultConfig\<close>, and one that reconnects.\<close>

definition monitor0 :: "Container monitor" where
  "monitor0 =
     \<lparr>convertContainer = (\<lambda>inspect. inspect), filterF = None,
      debounce = 100000000, maxDebounceTime = 5000000000, maxIdleTime = 30000000000,
      reconnect = None, previousHash = None, effects = []\<rparr>"

definition backoff_1_8 :: reconnectConfig where
  "backoff_1_8 = \<lparr>MinDelay = 1000000000, MaxDelay = 8000000000, MaxRetries = 0\<rparr>"

definition monitor_reconnecting :: "reconnectConfig \<Rightarrow> Container monitor" where
  "monitor_reconnecting rc = monitor0\<lparr>reconnect := Some rc\<rparr>"

text \<open>
  A session that lists the containers of \<open>docker1\<close> and loses its event stream after a
  second, and a session that cannot list the containers.
\<close>

definition session_dropped :: "Container attempt" where
  "session_dropped =
     \<lparr>initial = docker1, created = 0,
      wakeups = [\<lparr>now = 1000000000, received = ErrCh (Some (ClientError ''connection lost'')),
                  client = docker1\<rparr>],
      elapsed = 1000000000, ctxErr = None, backoffCtx = None\<rparr>"

definition session_down :: "Container attempt" where
  "session_down =
     \<lparr>initial = docker_down, created = 0, wakeups = [],
      elapsed = 1000000, ctxErr = None, backoffCtx = None\<rparr>"

definition session_idle :: "Container attempt" where
  "session_idle =
     \<lparr>initial = docker1, created = 0, wakeups = [],
      elapsed = 0, ctxErr = None, backoffCtx = None\<rparr>"

text \<open>
  A session that runs for two minutes before it loses its event stream, a tick of the
  idle ticker that finds the state source down, and further backoff configurations.
\<close>

definition session_stable :: "Container attempt" where
  "session_stable =
     \<lparr>initial = docker1, created = 0,
      wakeups = [\<lparr>now = 120000000000, received = ErrCh (Some (ClientError ''connection lost'')),
                  client = docker1\<rparr>],
      elapsed = 120000000000, ctxErr = None, backoffCtx = None\<rparr>"

definition idle_tick_down :: "Container wakeup" where
  "idle_tick_down = \<lparr>now = 30000000000, received = IdleTickerC, client = docker_down\<rparr>"

definition backoff_two_retries :: reconnectConfig where
  "backoff_two_retries = \<lparr>MinDelay = 1000000000, MaxDelay = 8000000000, MaxRetries = 2\<rparr>"

definition backoff_10_8 :: reconnectConfig where
  "backoff_10_8 = \<lparr>MinDelay = 10000000000, MaxDelay = 8000000000, MaxRetries = 0\<rparr>"

section \<open>Properties of the hashes\<close>

subsection \<open>The xor of hashes does not depend on order\<close>

lemma xor_fold_append: "xor_fold f acc (xs @ ys) = xor_fold f (xor_fold f acc xs) ys"
  by (induction xs arbitrary: acc) simp_all

lemma xor_fold_map: "xor_fold f acc (map g xs) = xor_fold (\<lambda>x. f (g x)) acc xs"
  by (induction xs arbitrary: acc) simp_all

lemma xor_fold_fold: "xor_fold f acc xs = fold (\<lambda>v h. h XOR v) (map f xs) acc"
  by (induction xs arbitrary: acc) simp_all

lemma xor_fold_image_mset:
  assumes "image_mset f (mset xs) = image_mset g (mset ys)"
  shows "xor_fold f acc xs = xor_fold g acc ys"
proof -
  have "mset (map f xs) = mset (map g ys)"
    using assms by simp
  moreover have "(\<lambda>v h. h XOR v) x \<circ> (\<lambda>v h. h XOR v) y = (\<lambda>v h. h XOR v) y \<circ> (\<lambda>v h. h XOR v) x"
    for x y :: "64 word"
    by (rule ext) (simp add: xor.assoc xor.commute xor.left_commute)
  ultimately have "fold (\<lambda>v h. h XOR v) (map f xs) = fold (\<lambda>v h. h XOR v) (map g ys)"
    by (intro fold_multiset_equiv) auto
  then show ?thesis
    by (simp add: xor_fold_fold)
qed

subsection \<open>Slices and maps\<close>

lemma len_elems: "len s = length (elems s)"
  by (simp add: len_def elems_def split: option.split)

lemma len_pos_iff: "len s > 0 \<longleftrightarrow> mset (elems s) \<noteq> {#}"
  by (simp add: len_elems)

lemma sort_mset_cong: "mset xs = mset ys \<Longrightarrow> sort xs = sort ys"
  for xs ys :: "'a::linorder list"
  by (metis sorted_list_of_multiset_mset)

lemma index_elems: "elems m = elems m' \<Longrightarrow> index m k = index m' k"
  by (simp add: index_def)

lemma index_perm:
  assumes "mset (elems m) = mset (elems m')" and "distinct (map fst (elems m))"
  shows "index m k = index m' k"
proof -
  have "mset (map fst (elems m)) = mset (map fst (elems m'))"
    using assms(1) by (metis mset_map)
  then have "distinct (map fst (elems m'))"
    using assms(2) by (metis mset_eq_imp_distinct_iff)
  moreover have "set (elems m) = set (elems m')"
    using assms(1) by (rule mset_eq_setD)
  ultimately have "map_of (elems m) = map_of (elems m')"
    using assms(2) by (simp add: map_of_inject_set)
  then show ?thesis
    by (simp add: index_def)
qed

lemma Write_labels_cong:
  assumes "\<And>k. k \<in> set keys \<Longrightarrow> index m k = index m' k"
  shows "Write_labels h m keys = Write_labels h m' keys"
  using assms by (induction keys arbitrary: h) simp_all

lemma elems_to_nil: "elems (to_nil s) = elems s"
  by (simp add: to_nil_def elems_def len_def split: option.split)

lemma elems_to_empty: "elems (to_empty s) = elems s"
  by (simp add: to_empty_def elems_def len_def split: option.split)

lemma len_to_nil: "len (to_nil s) = len s"
  by (simp add: len_elems elems_to_nil)

lemma len_to_empty: "len (to_empty s) = len s"
  by (simp add: len_elems elems_to_empty)

lemma elems_map_option: "elems (map_option (map f) s) = map f (elems s)"
  by (simp add: elems_def split: option.split)

subsection \<open>A hash is a function of what it hashes up to order\<close>

lemma Network_hash_abs:
  assumes "Network_abs n = Network_abs n'"
  shows "Network_hash n = Network_hash n'"
proof -
  from assms have fields: "NetName n = NetName n'" "NetID n = NetID n'"
      "IPAddress n = IPAddress n'" "IP6Address n = IP6Address n'" "Gateway n = Gateway n'"
    and al: "mset (elems (Aliases n)) = mset (elems (Aliases n'))"
    by (simp_all add: Network_abs_def)
  from al have "sort (elems (Aliases n)) = sort (elems (Aliases n'))"
    by (rule sort_mset_cong)
  moreover from al have "len (Aliases n) > 0 \<longleftrightarrow> len (Aliases n') > 0"
    by (simp only: len_pos_iff)
  ultimately show ?thesis
    unfolding Network_hash_def Let_def fields by simp
qed

lemma Network_hashes_abs:
  assumes "image_mset Network_abs (mset ns) = image_mset Network_abs (mset ns')"
  shows "xor_fold Network_hash 0 ns = xor_fold Network_hash 0 ns'"
proof -
  define H where "H a = Network_hash (SOME n. Network_abs n = a)" for a
  have "Network_hash n = H (Network_abs n)" for n
  proof -
    have "Network_abs (SOME x. Network_abs x = Network_abs n) = Network_abs n"
      by (rule someI [of "\<lambda>x. Network_abs x = Network_abs n" n]) (rule refl)
    then show ?thesis
      unfolding H_def by (rule Network_hash_abs [symmetric])
  qed
  then have "image_mset Network_hash M = image_mset (\<lambda>n. H (Network_abs n)) M" for M
    by (intro image_mset_cong)
  then have "image_mset Network_hash M = image_mset H (image_mset Network_abs M)" for M
    by (simp add: multiset.map_comp comp_def)
  then have "image_mset Network_hash (mset ns) = image_mset Network_hash (mset ns')"
    using assms by simp
  then show ?thesis
    by (rule xor_fold_image_mset)
qed

lemma Container_hash_abs:
  assumes "Container_abs c = Container_abs c'" and "labels_ok c"
  shows "Container_hash c = Container_hash c'"
proof -
  from assms(1) have fields: "ID c = ID c'" "Name c = Name c'" "Image c = Image c'" "State c = State c'"
    and lab: "mset (elems (Labels c)) = mset (elems (Labels c'))"
    and net: "image_mset Network_abs (mset (elems (Networks c)))
        = image_mset Network_abs (mset (elems (Networks c')))"
    and por: "mset (elems (Ports c)) = mset (elems (Ports c'))"
    by (simp_all add: Container_abs_def)
  from lab have "mset (map fst (elems (Labels c))) = mset (map fst (elems (Labels c')))"
    by (metis mset_map)
  then have keys: "sort (map fst (elems (Labels c))) = sort (map fst (elems (Labels c')))"
    by (rule sort_mset_cong)
  have vals: "Write_labels h (Labels c) ks = Write_labels h (Labels c') ks" for h ks
    using lab assms(2) by (intro Write_labels_cong index_perm) (simp_all add: labels_ok_def)
  from lab have lenl: "len (Labels c) > 0 \<longleftrightarrow> len (Labels c') > 0"
    by (simp only: len_pos_iff)
  from net have nets: "xor_fold Network_hash 0 (elems (Networks c))
      = xor_fold Network_hash 0 (elems (Networks c'))"
    by (rule Network_hashes_abs)
  from por have "image_mset Port_hash (mset (elems (Ports c)))
      = image_mset Port_hash (mset (elems (Ports c')))"
    by simp
  then have ports: "xor_fold Port_hash 0 (elems (Ports c)) = xor_fold Port_hash 0 (elems (Ports c'))"
    by (rule xor_fold_image_mset)
  show ?thesis
    unfolding Container_hash_def Let_def fields keys vals lenl nets ports ..
qed

lemma labels_ok_abs:
  assumes "Container_abs c = Container_abs c'" and "labels_ok c"
  shows "labels_ok c'"
proof -
  from assms(1) have "mset (elems (Labels c)) = mset (elems (Labels c'))"
    by (simp add: Container_abs_def)
  then have "mset (map fst (elems (Labels c))) = mset (map fst (elems (Labels c')))"
    by (metis mset_map)
  then show ?thesis
    using assms(2) unfolding labels_ok_def by (metis mset_eq_imp_distinct_iff)
qed

lemma computeHash_abs:
  assumes "Collection_abs cs = Collection_abs cs'"
    and "\<forall>c \<in> set cs. labels_ok c"
  shows "computeHash cs = computeHash cs'"
proof -
  define H where "H a = Container_hash (SOME c. Container_abs c = a \<and> labels_ok c)" for a
  have H: "Container_hash c = H (Container_abs c)" if "labels_ok c" for c
  proof -
    have "Container_abs (SOME x. Container_abs x = Container_abs c \<and> labels_ok x) = Container_abs c
        \<and> labels_ok (SOME x. Container_abs x = Container_abs c \<and> labels_ok x)"
      by (rule someI [of "\<lambda>x. Container_abs x = Container_abs c \<and> labels_ok x" c]) (simp add: that)
    then have "Container_hash (SOME x. Container_abs x = Container_abs c \<and> labels_ok x)
        = Container_hash c"
      by (intro Container_hash_abs) simp_all
    then show ?thesis
      unfolding H_def by simp
  qed
  have ok': "\<forall>c \<in> set cs'. labels_ok c"
  proof
    fix c' assume "c' \<in> set cs'"
    then have "Container_abs c' \<in># Collection_abs cs'"
      by (simp add: Collection_abs_def)
    then have "Container_abs c' \<in># Collection_abs cs"
      by (simp add: assms(1))
    then obtain c where "c \<in> set cs" "Container_abs c = Container_abs c'"
      by (auto simp: Collection_abs_def)
    then show "labels_ok c'"
      using assms(2) labels_ok_abs by blast
  qed
  have hashes: "image_mset Container_hash (mset ds) = image_mset H (Collection_abs ds)"
    if "\<forall>c \<in> set ds. labels_ok c" for ds
  proof -
    have "image_mset Container_hash (mset ds) = image_mset (\<lambda>c. H (Container_abs c)) (mset ds)"
      using that H by (intro image_mset_cong) simp
    then show ?thesis
      by (simp add: Collection_abs_def multiset.map_comp comp_def)
  qed
  have "image_mset Container_hash (mset cs) = image_mset Container_hash (mset cs')"
    by (simp add: hashes [OF assms(2)] hashes [OF ok'] assms(1))
  then show ?thesis
    unfolding computeHash_def by (rule xor_fold_image_mset)
qed

text \<open>Each of the permutations in question keeps the abstraction.\<close>

lemma permutations_keep_abs:
  "mset cs = mset cs' \<Longrightarrow> Collection_abs cs = Collection_abs cs'"
  "mset ls = mset ls' \<Longrightarrow>
     Container_abs (c\<lparr>Labels := Some ls\<rparr>) = Container_abs (c\<lparr>Labels := Some ls'\<rparr>)"
  "mset ns = mset ns' \<Longrightarrow>
     Container_abs (c\<lparr>Networks := Some ns\<rparr>) = Container_abs (c\<lparr>Networks := Some ns'\<rparr>)"
  "mset ps = mset ps' \<Longrightarrow>
     Container_abs (c\<lparr>Ports := Some ps\<rparr>) = Container_abs (c\<lparr>Ports := Some ps'\<rparr>)"
  "mset als = mset als' \<Longrightarrow>
     Network_abs (n\<lparr>Aliases := Some als\<rparr>) = Network_abs (n\<lparr>Aliases := Some als'\<rparr>)"
  by (simp_all add: Collection_abs_def Container_abs_def Network_abs_def elems_def)

lemma Collection_abs_test_data: "Collection_abs [web1, exited] = Collection_abs [exited, web2]"
  by (simp add: Collection_abs_def Container_abs_def Network_abs_def web1_def web2_def exited_def
      bridge1_def bridge2_def custom_def http_def https_def elems_def)

lemma labels_ok_test_data: "\<forall>c \<in> set [web1, exited]. labels_ok c"
  by (simp add: labels_ok_def web1_def exited_def elems_def)

text \<open>
  C5. The hash of a collection of containers is the same for two collections that differ
  by a permutation of the collection, of each container's label entries, of each
  container's networks and ports, and of each network's aliases: that is, for two
  collections with the same \<open>Collection_abs\<close>. The label entries are those of a map.
\<close>

theorem computeHash_permutation_invariant:
  assumes "Collection_abs containers = Collection_abs containers'"
    and "\<forall>c \<in> set containers. labels_ok c"
  shows "computeHash containers = computeHash containers'"
  using assms by (rule computeHash_abs)

theorem computeHash_permutation_invariant_witness:
  "Collection_abs [web1, exited] = Collection_abs [exited, web2]
   \<and> labels_ok web1 \<and> labels_ok exited
   \<and> web1 \<noteq> web2
   \<and> computeHash [web1, exited] = computeHash [exited, web2]"
proof -
  have "web1 \<noteq> web2"
    by (simp add: web1_def web2_def)
  with computeHash_permutation_invariant [OF Collection_abs_test_data labels_ok_test_data]
    Collection_abs_test_data labels_ok_test_data
  show ?thesis
    by simp
qed

lemma Network_hash_nil_variant: "Network_hash (Network_nil_variant n) = Network_hash n"
  by (simp add: Network_hash_def Network_nil_variant_def len_to_nil elems_to_nil Let_def)

lemma Network_hash_empty_variant: "Network_hash (Network_empty_variant n) = Network_hash n"
  by (simp add: Network_hash_def Network_empty_variant_def len_to_empty elems_to_empty Let_def)

text \<open>
  C8. For every container, the variant in which the labels, the networks, the ports and
  the alias lists that have no element are nil has the hash of the variant in which they
  are empty.
\<close>

theorem Container_hash_nil_empty:
  "Container_hash (nil_variant c) = Container_hash (empty_variant c)"
proof -
  have labels: "Write_labels h (to_nil (Labels c)) ks = Write_labels h (to_empty (Labels c)) ks"
    for h ks
    by (intro Write_labels_cong index_elems) (simp add: elems_to_nil elems_to_empty)
  have nets: "xor_fold Network_hash 0 (map Network_nil_variant ns)
      = xor_fold Network_hash 0 (map Network_empty_variant ns)" for ns
    by (simp add: xor_fold_map Network_hash_nil_variant Network_hash_empty_variant)
  show ?thesis
    by (simp add: Let_def Container_hash_def nil_variant_def empty_variant_def len_to_nil
        len_to_empty elems_to_nil elems_to_empty elems_map_option labels nets)
qed

text \<open>
  C10. Appending two copies of a container to a list leaves the hash of the list
  unchanged; a list of two identical containers hashes to 0, as the empty list does,
  although the two lists differ.
\<close>

theorem computeHash_duplicate_cancels:
  "computeHash (L @ [c, c]) = computeHash L
   \<and> computeHash [c, c] = 0 \<and> computeHash [] = 0 \<and> [c, c] \<noteq> []"
  by (simp add: computeHash_def xor_fold_append xor.assoc)

section \<open>Properties of the filters\<close>

text \<open>
  C3. \<^verbatim>\<open>LabelEquals(key, value)\<close> is to hold exactly when the label map contains the
  key with that value. The code compares \<^verbatim>\<open>c.Labels[key]\<close> with the value, and a missing
  key reads as the empty string: on \<open>runningNoLabels\<close>, which has no label,
  \<^verbatim>\<open>LabelEquals("missing", "")\<close> holds although \<^verbatim>\<open>LabelExists("missing")\<close> does not.
\<close>

theorem LabelEquals_missing_key_empty_value:
  "LabelEquals ''missing'' '''' runningNoLabels = True
   \<and> LabelExists ''missing'' runningNoLabels = False"
  by (simp add: LabelEquals_def LabelExists_def has_key_def runningNoLabels_def index_def elems_def)

section \<open>Properties of the monitor\<close>

subsection \<open>Pulling and delivering\<close>

lemma inspect_each_eq:
  "inspect_each m cl summaries containers =
     containers @ filter (accepted m)
       (map (\<lambda>s. convertContainer m (projr (ContainerInspect cl s))) (filter (inspectable cl) summaries))"
proof (induction summaries arbitrary: containers)
  case Nil
  show ?case by simp
next
  case (Cons s summaries)
  show ?case
  proof (cases "ContainerInspect cl s")
    case (Inl err)
    then show ?thesis
      by (simp add: Cons.IH inspectable_def)
  next
    case (Inr inspect)
    then show ?thesis
      by (simp add: Cons.IH inspectable_def accepted_def Let_def)
  qed
qed

lemma accepted_effects [simp]: "accepted (m\<lparr>effects := es\<rparr>) = accepted m"
  by (rule ext) (simp add: accepted_def)

lemma gatherContainers_fst:
  "fst (gatherContainers m cl) =
     (case ContainerList cl of
        Inl err \<Rightarrow> Inl err
      | Inr summaries \<Rightarrow>
          Inr (filter (accepted m)
                 (map (\<lambda>s. convertContainer m (projr (ContainerInspect cl s)))
                    (filter (inspectable cl) summaries))))"
  by (simp add: gatherContainers_def inspect_each_eq Let_def split: sum.split)

lemma gatherContainers_snd: "snd (gatherContainers m cl) = m\<lparr>effects := effects m @ [Listed]\<rparr>"
  by (simp add: gatherContainers_def Let_def split: sum.split)

lemma gather_eq:
  "gather m cl =
     (case fst (gatherContainers m cl) of
        Inl err \<Rightarrow> (Some (Wrapped ''failed to refresh containers'' err), m\<lparr>effects := effects m @ [Listed]\<rparr>)
      | Inr containers \<Rightarrow>
          if previousHash m = Some (computeHash containers)
          then (None, m\<lparr>effects := effects m @ [Listed]\<rparr>)
          else (None, m\<lparr>previousHash := Some (computeHash containers),
                        effects := effects m @ [Listed, Stored (computeHash containers), Called containers]\<rparr>))"
  by (cases "gatherContainers m cl")
    (auto simp: gather_def Let_def gatherContainers_def split: sum.splits option.splits)

lemma calls_append: "calls (es @ es') = calls es @ calls es'"
  by (induction es rule: calls.induct) simp_all

lemma sleeps_append: "sleeps (es @ es') = sleeps es @ sleeps es'"
  by (induction es rule: sleeps.induct) simp_all

lemma gather_fst:
  "fst (gather m cl) =
     (case ContainerList cl of
        Inl err \<Rightarrow> Some (Wrapped ''failed to refresh containers'' err)
      | Inr summaries \<Rightarrow> None)"
  by (simp add: gather_eq gatherContainers_fst split: sum.split)

lemma gather_effects: "\<exists>es. effects (snd (gather m cl)) = effects m @ Listed # es \<and> Subscribed \<notin> set es \<and> sleeps es = []"
  by (simp add: gather_eq split: sum.split)

lemma gather_config: "same_config m (snd (gather m cl))"
  by (simp add: gather_eq same_config_def split: sum.split)

lemma same_config_refl: "same_config m m"
  by (simp add: same_config_def)

lemma same_config_trans: "same_config m m' \<Longrightarrow> same_config m' m'' \<Longrightarrow> same_config m m''"
  by (simp add: same_config_def)

lemma same_config_sym: "same_config m m' \<Longrightarrow> same_config m' m"
  by (simp add: same_config_def)

lemma same_config_effects: "same_config m (m\<lparr>effects := es\<rparr>)"
  by (simp add: same_config_def)

subsection \<open>The event loop\<close>

text \<open>What a step does, case by case.\<close>

lemma select_step_not_ready:
  "\<not> select_ready g (now w) (received w) \<Longrightarrow> select_step m g w = (NotReady, m)"
  by (simp add: select_step_def)

lemma select_step_event:
  "received w = EventCh \<Longrightarrow>
   select_step m g w =
     (Selecting (if waiting g
        then g\<lparr>idleTicker := now w + maxIdleTime m, debounceTimer := Some (now w + debounce m)\<rparr>
        else g\<lparr>idleTicker := now w + maxIdleTime m, debounceTimer := Some (now w + debounce m),
               maxDebounceTimer := Some (now w + maxDebounceTime m), waiting := True\<rparr>), m)"
  by (simp add: select_step_def select_ready_def Let_def)

lemma select_step_timer:
  assumes "timer_case (received w)" and "select_ready g (now w) (received w)"
  shows "select_step m g w =
     (case fst (gather m (client w)) of
        Some err \<Rightarrow> (Returned (Some err), snd (gather m (client w)))
      | None \<Rightarrow>
          (Selecting
             (if received w = IdleTickerC
              then g\<lparr>idleTicker := next_tick (idleTicker g) (maxIdleTime m) (now w),
                     debounceTimer := if waiting g then None else debounceTimer g,
                     maxDebounceTimer := if waiting g then None else maxDebounceTimer g,
                     waiting := False\<rparr>
              else g\<lparr>debounceTimer := None, maxDebounceTimer := None,
                     idleTicker := now w + maxIdleTime m, waiting := False\<rparr>),
           snd (gather m (client w))))"
proof -
  obtain r m' where g: "gather m (client w) = (r, m')"
    by (cases "gather m (client w)")
  have cfg: "maxIdleTime m' = maxIdleTime m"
    using gather_config [of m "client w"] g by (simp add: same_config_def)
  show ?thesis
    using assms g cfg
    by (cases "received w"; cases r) (simp_all add: select_step_def timer_case_def Let_def)
qed

lemma select_step_other:
  assumes "\<not> timer_case (received w)"
  shows "snd (select_step m g w) = m" and "returns (fst (select_step m g w)) \<or> received w = EventCh"
  using assms
  by (cases "received w"; simp add: select_step_def timer_case_def select_ready_def Let_def returns_def split: option.split)+


lemma select_step_status:
  assumes "same_config m m'"
  shows "fst (select_step m g w) = fst (select_step m' g w)"
proof (cases "select_ready g (now w) (received w)")
  case False
  then show ?thesis by (simp add: select_step_not_ready)
next
  case ready: True
  show ?thesis
  proof (cases "timer_case (received w)")
    case True
    with ready assms show ?thesis
      by (simp add: select_step_timer gather_fst same_config_def split: sum.split)
  next
    case False
    with assms show ?thesis
      by (cases "received w")
        (simp_all add: select_step_def timer_case_def select_ready_def Let_def same_config_def
          split: option.split)
  qed
qed

lemma select_step_effects:
  "\<exists>es. effects (snd (select_step m g w)) = effects m @ es \<and> Subscribed \<notin> set es \<and> sleeps es = []"
proof (cases "select_ready g (now w) (received w) \<and> timer_case (received w)")
  case True
  then show ?thesis
    using gather_effects [of m "client w"]
    by (auto simp: select_step_timer split: option.split)
next
  case False
  then show ?thesis
    by (auto simp: select_step_not_ready select_step_other)
qed

lemma select_step_config: "same_config m (snd (select_step m g w))"
proof (cases "select_ready g (now w) (received w) \<and> timer_case (received w)")
  case True
  then show ?thesis
    using gather_config [of m "client w"]
    by (auto simp: select_step_timer split: option.split)
next
  case False
  then show ?thesis
    by (auto simp: select_step_not_ready select_step_other same_config_refl)
qed

lemma select_loop_Cons:
  "select_loop m g (w # ws) =
     (case fst (select_step m g w) of
        Selecting g' \<Rightarrow> select_loop (snd (select_step m g w)) g' ws
      | s \<Rightarrow> select_step m g w)"
  by (cases "select_step m g w") (simp split: status.split)

declare select_loop.simps(2) [simp del]

lemma select_loop_status:
  "same_config m m' \<Longrightarrow> fst (select_loop m g ws) = fst (select_loop m' g ws)"
proof (induction ws arbitrary: m m' g)
  case Nil
  show ?case by simp
next
  case (Cons w ws)
  have st: "fst (select_step m g w) = fst (select_step m' g w)"
    using Cons.prems by (rule select_step_status)
  have "same_config (snd (select_step m g w)) (snd (select_step m' g w))"
    using Cons.prems select_step_config [of m g w] select_step_config [of m' g w]
    by (metis same_config_sym same_config_trans)
  then have "fst (select_loop (snd (select_step m g w)) g' ws)
      = fst (select_loop (snd (select_step m' g w)) g' ws)" for g'
    by (rule Cons.IH)
  then show ?case
    by (simp add: select_loop_Cons st split: status.split)
qed

lemma select_loop_config: "same_config m (snd (select_loop m g ws))"
proof (induction ws arbitrary: m g)
  case Nil
  show ?case by (simp add: same_config_refl)
next
  case (Cons w ws)
  show ?case
    using select_step_config [of m g w] Cons.IH [of "snd (select_step m g w)"]
    by (auto simp: select_loop_Cons split: status.split intro: same_config_trans)
qed

lemma select_loop_effects:
  "\<exists>es. effects (snd (select_loop m g ws)) = effects m @ es \<and> Subscribed \<notin> set es \<and> sleeps es = []"
proof (induction ws arbitrary: m g)
  case Nil
  show ?case by simp
next
  case (Cons w ws)
  obtain es where es: "effects (snd (select_step m g w)) = effects m @ es"
      "Subscribed \<notin> set es" "sleeps es = []"
    using select_step_effects [of m g w] by blast
  show ?case
  proof (cases "fst (select_step m g w)")
    case (Selecting g')
    obtain es' where "effects (snd (select_loop (snd (select_step m g w)) g' ws))
        = effects (snd (select_step m g w)) @ es'" "Subscribed \<notin> set es'" "sleeps es' = []"
      using Cons.IH [of "snd (select_step m g w)" g'] by blast
    with es Selecting show ?thesis
      by (simp add: select_loop_Cons sleeps_append)
  qed (use es in \<open>simp_all add: select_loop_Cons\<close>)
qed

lemma select_loop_append:
  "select_loop m g (ws @ ws') =
     (case fst (select_loop m g ws) of
        Selecting g' \<Rightarrow> select_loop (snd (select_loop m g ws)) g' ws'
      | s \<Rightarrow> select_loop m g ws)"
proof (induction ws arbitrary: m g)
  case Nil
  show ?case by simp
next
  case (Cons w ws)
  show ?case
    by (cases "fst (select_step m g w)")
      (simp_all add: select_loop_Cons Cons.IH split: status.split)
qed


lemma runOnce_eq:
  "runOnce m a =
     (case fst (gather (m\<lparr>effects := effects m @ [Subscribed]\<rparr>) (initial a)) of
        Some err \<Rightarrow> (Returned (Some err), snd (gather (m\<lparr>effects := effects m @ [Subscribed]\<rparr>) (initial a)))
      | None \<Rightarrow>
          if maxIdleTime m \<le> 0
          then (Panicked, snd (gather (m\<lparr>effects := effects m @ [Subscribed]\<rparr>) (initial a)))
          else select_loop (snd (gather (m\<lparr>effects := effects m @ [Subscribed]\<rparr>) (initial a)))
                 \<lparr>debounceTimer = None, maxDebounceTimer = None,
                  idleTicker = created a + maxIdleTime m, waiting = False\<rparr>
                 (wakeups a))"
proof -
  obtain r m' where g: "gather (m\<lparr>effects := effects m @ [Subscribed]\<rparr>) (initial a) = (r, m')"
    by (cases "gather (m\<lparr>effects := effects m @ [Subscribed]\<rparr>) (initial a)")
  have "maxIdleTime m' = maxIdleTime m"
    using gather_config [of "m\<lparr>effects := effects m @ [Subscribed]\<rparr>" "initial a"] g
    by (simp add: same_config_def)
  then show ?thesis
    using g by (cases r) (simp_all add: runOnce_def Let_def)
qed

lemma runOnce_status:
  assumes "same_config m m'"
  shows "fst (runOnce m a) = fst (runOnce m' a)"
proof -
  let ?m = "m\<lparr>effects := effects m @ [Subscribed]\<rparr>" and ?m' = "m'\<lparr>effects := effects m' @ [Subscribed]\<rparr>"
  have "same_config (snd (gather ?m (initial a))) (snd (gather ?m' (initial a)))"
    using assms gather_config [of ?m "initial a"] gather_config [of ?m' "initial a"]
    by (simp add: same_config_def)
  then have "fst (select_loop (snd (gather ?m (initial a))) g ws)
      = fst (select_loop (snd (gather ?m' (initial a))) g ws)" for g ws
    by (rule select_loop_status)
  moreover have "maxIdleTime m = maxIdleTime m'"
    using assms by (simp add: same_config_def)
  ultimately show ?thesis
    by (simp add: runOnce_eq gather_fst split: sum.split)
qed

lemma runOnce_config: "same_config m (snd (runOnce m a))"
proof -
  let ?m = "m\<lparr>effects := effects m @ [Subscribed]\<rparr>"
  have 1: "same_config m (snd (gather ?m (initial a)))"
    using gather_config [of ?m "initial a"] by (simp add: same_config_def)
  have "same_config m (snd (select_loop (snd (gather ?m (initial a))) g ws))" for g ws
    using 1 select_loop_config by (rule same_config_trans)
  with 1 show ?thesis
    by (simp add: runOnce_eq split: option.split)
qed

lemma runOnce_effects:
  "\<exists>es. effects (snd (runOnce m a)) = effects m @ Subscribed # Listed # es
     \<and> Subscribed \<notin> set es \<and> sleeps es = []"
proof -
  let ?m = "m\<lparr>effects := effects m @ [Subscribed]\<rparr>"
  obtain es where es: "effects (snd (gather ?m (initial a))) = effects m @ Subscribed # Listed # es"
      "Subscribed \<notin> set es" "sleeps es = []"
    using gather_effects [of ?m "initial a"] by auto
  have "\<exists>es'. effects (snd (select_loop (snd (gather ?m (initial a))) g ws))
      = effects m @ Subscribed # Listed # es' \<and> Subscribed \<notin> set es' \<and> sleeps es' = []" for g ws
  proof -
    obtain es' where "effects (snd (select_loop (snd (gather ?m (initial a))) g ws))
      = effects (snd (gather ?m (initial a))) @ es'" "Subscribed \<notin> set es'" "sleeps es' = []"
      using select_loop_effects by blast
    with es show ?thesis
      by (simp add: sleeps_append)
  qed
  with es show ?thesis
    by (simp add: runOnce_eq split: option.split)
qed

lemma fails_rapidly_config: "same_config m m' \<Longrightarrow> fails_rapidly m a = fails_rapidly m' a"
  by (simp add: fails_rapidly_def runOnce_status [of m m'])

subsection \<open>The retry loop\<close>

text \<open>What the loop does with a session that fails rapidly, and with one that was stable.\<close>

lemma retry_loop_rapid:
  assumes "fails_rapidly m a"
  shows "retry_loop m rc attempt delay (a # as) =
     (if MaxRetries rc > 0 \<and> wrap64 (attempt + 1) > MaxRetries rc then runOnce m a
      else retry_loop ((snd (runOnce m a))\<lparr>effects := effects (snd (runOnce m a)) @ [Slept delay]\<rparr>)
             rc (wrap64 (attempt + 1))
             (if wrap64 (delay * 2) > MaxDelay rc then MaxDelay rc else wrap64 (delay * 2)) as)"
proof -
  obtain s m' where r: "runOnce m a = (s, m')"
    by (cases "runOnce m a")
  with assms obtain err where "s = Returned err"
    by (cases s) (simp_all add: fails_rapidly_def returns_def)
  with assms r show ?thesis
    by (simp add: fails_rapidly_def Let_def)
qed

lemma retry_loop_stable:
  assumes "Minute \<le> elapsed a"
  shows "retry_loop m rc attempt delay (a # as) = retry_loop m rc 0 (MinDelay rc) (a # as)"
  using assms by simp

declare retry_loop.simps(2) [simp del]

lemma wrap64_id: "- (2 ^ 63) \<le> x \<Longrightarrow> x < 2 ^ 63 \<Longrightarrow> wrap64 x = x"
  by (simp add: wrap64_def)

lemma min_double:
  fixes a M :: int
  assumes "0 \<le> M"
  shows "min (2 * min a M) M = min (2 * a) M"
  using assms by (simp add: min_def)


lemma retry_loop_backoff:
  assumes rc: "0 \<le> MinDelay rc" "MinDelay rc \<le> MaxDelay rc" "MaxDelay rc < 2 ^ 62"
      "MaxRetries rc < 2 ^ 63"
    and fail: "\<forall>a \<in> set as. fails_rapidly m0 a"
    and cfg: "same_config m0 m"
    and delay: "delay = min (MinDelay rc * 2 ^ j) (MaxDelay rc)"
    and bound: "MaxRetries rc \<le> 0 \<or> (0 \<le> attempt \<and> attempt + int (length as) \<le> MaxRetries rc)"
  shows "fst (retry_loop m rc attempt delay as) = Reconnecting
    \<and> sleeps (effects (snd (retry_loop m rc attempt delay as)))
      = sleeps (effects m) @ map (\<lambda>i. min (MinDelay rc * 2 ^ (j + i)) (MaxDelay rc)) [0..<length as]"
  using fail cfg delay bound
proof (induction as arbitrary: m attempt delay j)
  case Nil
  show ?case by simp
next
  case (Cons a as)
  let ?m1 = "snd (runOnce m a)"
  let ?m2 = "?m1\<lparr>effects := effects ?m1 @ [Slept delay]\<rparr>"
  let ?delay = "if wrap64 (delay * 2) > MaxDelay rc then MaxDelay rc else wrap64 (delay * 2)"
  have a: "fails_rapidly m a"
    using Cons.prems(1,2) by (simp add: fails_rapidly_config)
  have range: "0 \<le> delay" "delay \<le> MaxDelay rc"
    using rc Cons.prems(3) by simp_all
  then have "wrap64 (delay * 2) = 2 * delay"
    using rc by (subst wrap64_id) simp_all
  then have "?delay = min (2 * delay) (MaxDelay rc)"
    by (simp add: min_def)
  also have "\<dots> = min (2 * min (MinDelay rc * 2 ^ j) (MaxDelay rc)) (MaxDelay rc)"
    by (simp only: Cons.prems(3))
  also have "\<dots> = min (2 * (MinDelay rc * 2 ^ j)) (MaxDelay rc)"
    using rc by (intro min_double) simp
  also have "\<dots> = min (MinDelay rc * 2 ^ Suc j) (MaxDelay rc)"
    by (simp add: mult.left_commute)
  finally have next_delay: "?delay = min (MinDelay rc * 2 ^ Suc j) (MaxDelay rc)" .
  have continue: "\<not> (MaxRetries rc > 0 \<and> wrap64 (attempt + 1) > MaxRetries rc)"
  proof (cases "MaxRetries rc \<le> 0")
    case True
    then show ?thesis by simp
  next
    case False
    with Cons.prems(4) have "0 \<le> attempt" "attempt + 1 \<le> MaxRetries rc"
      by simp_all
    moreover from this rc have "wrap64 (attempt + 1) = attempt + 1"
      by (intro wrap64_id) simp_all
    ultimately show ?thesis by simp
  qed
  have bound': "MaxRetries rc \<le> 0
      \<or> (0 \<le> wrap64 (attempt + 1) \<and> wrap64 (attempt + 1) + int (length as) \<le> MaxRetries rc)"
  proof (cases "MaxRetries rc \<le> 0")
    case True
    then show ?thesis by simp
  next
    case False
    with Cons.prems(4) have "0 \<le> attempt" "attempt + 1 + int (length as) \<le> MaxRetries rc"
      by simp_all
    moreover from this rc have "wrap64 (attempt + 1) = attempt + 1"
      by (intro wrap64_id) simp_all
    ultimately show ?thesis by simp
  qed
  have cfg2: "same_config m0 ?m2"
    using Cons.prems(2) runOnce_config [of m a] by (simp add: same_config_def)
  have IH: "fst (retry_loop ?m2 rc (wrap64 (attempt + 1)) ?delay as) = Reconnecting
    \<and> sleeps (effects (snd (retry_loop ?m2 rc (wrap64 (attempt + 1)) ?delay as)))
      = sleeps (effects ?m2) @ map (\<lambda>i. min (MinDelay rc * 2 ^ (Suc j + i)) (MaxDelay rc)) [0..<length as]"
    using Cons.prems(1) cfg2 next_delay bound' by (intro Cons.IH) simp_all
  obtain es where es: "effects ?m1 = effects m @ Subscribed # Listed # es" "sleeps es = []"
    using runOnce_effects [of m a] by blast
  have sl: "sleeps (effects ?m2) = sleeps (effects m) @ [min (MinDelay rc * 2 ^ j) (MaxDelay rc)]"
    using es Cons.prems(3) by (simp add: sleeps_append)
  have shift: "map (\<lambda>i. min (MinDelay rc * 2 ^ (j + i)) (MaxDelay rc)) [0..<length (a # as)]
      = min (MinDelay rc * 2 ^ j) (MaxDelay rc)
        # map (\<lambda>i. min (MinDelay rc * 2 ^ (Suc j + i)) (MaxDelay rc)) [0..<length as]"
    by (simp add: upt_rec [of 0] map_Suc_upt [symmetric] del: upt_Suc)
  have step: "retry_loop m rc attempt delay (a # as)
      = retry_loop ?m2 rc (wrap64 (attempt + 1)) ?delay as"
    by (subst retry_loop_rapid [OF a]) (simp only: continue if_False)
  show ?case
    unfolding step using IH by (simp only: sl shift append_assoc append_Cons append_Nil)
qed

lemma retry_loop_effects:
  "\<exists>es. effects (snd (retry_loop m rc attempt delay as)) = effects m @ es"
proof (induction as arbitrary: m attempt delay)
  case Nil
  show ?case by simp
next
  case (Cons a as)
  obtain s m1 where r: "runOnce m a = (s, m1)"
    by (cases "runOnce m a")
  obtain es1 where es1: "effects m1 = effects m @ es1"
    using runOnce_effects [of m a] r by auto
  have IH: "\<exists>es. effects (snd (retry_loop (m1\<lparr>effects := effects m1 @ [Slept d]\<rparr>) rc k d' as))
      = effects m @ es" for d k d'
    using Cons.IH [of "m1\<lparr>effects := effects m1 @ [Slept d]\<rparr>" k d'] es1 by auto
  show ?case
    using r es1 IH
    by (cases s) (auto simp: retry_loop.simps(2) Let_def split: option.split)
qed

lemma retry_loop_first:
  "\<exists>es. effects (snd (retry_loop m rc attempt delay (a # as))) = effects (snd (runOnce m a)) @ es"
proof -
  obtain s m1 where r: "runOnce m a = (s, m1)"
    by (cases "runOnce m a")
  have IH: "\<exists>es. effects (snd (retry_loop (m1\<lparr>effects := effects m1 @ [Slept d]\<rparr>) rc k d' as))
      = effects m1 @ es" for d k d'
    using retry_loop_effects [of "m1\<lparr>effects := effects m1 @ [Slept d]\<rparr>" rc k d' as] by auto
  show ?thesis
    using r IH by (cases s) (auto simp: retry_loop.simps(2) Let_def split: option.split)
qed

lemma run_first: "\<exists>es. effects (snd (run m a as)) = effects (snd (runOnce m a)) @ es"
  using retry_loop_first [of m _ 0 _ a as]
  by (simp add: run_def runWithRetry_def split: option.split)

lemma count_Subscribed_runOnce:
  "count_list (effects (snd (runOnce m a))) Subscribed = count_list (effects m) Subscribed + 1"
proof -
  obtain es where "effects (snd (runOnce m a)) = effects m @ Subscribed # Listed # es"
      "Subscribed \<notin> set es"
    using runOnce_effects [of m a] by blast
  then show ?thesis
    by (simp add: count_list_0_iff)
qed

lemma three_attempts:
  assumes rc: "MaxRetries rc = 2"
    and fail: "fails_rapidly m a1" "fails_rapidly m a2" "fails_rapidly m a3"
  shows "(\<exists>m3. same_config m m3 \<and> retry_loop m rc 0 delay (a1 # a2 # a3 # rest) = runOnce m3 a3)
    \<and> count_list (effects (snd (retry_loop m rc 0 delay (a1 # a2 # a3 # rest)))) Subscribed
      = count_list (effects m) Subscribed + 3"
proof -
  define d2 where "d2 = (if wrap64 (delay * 2) > MaxDelay rc then MaxDelay rc else wrap64 (delay * 2))"
  define d3 where "d3 = (if wrap64 (d2 * 2) > MaxDelay rc then MaxDelay rc else wrap64 (d2 * 2))"
  define m2 where "m2 = (snd (runOnce m a1))\<lparr>effects := effects (snd (runOnce m a1)) @ [Slept delay]\<rparr>"
  define m3 where "m3 = (snd (runOnce m2 a2))\<lparr>effects := effects (snd (runOnce m2 a2)) @ [Slept d2]\<rparr>"
  have w: "wrap64 1 = 1" "wrap64 2 = 2" "wrap64 3 = 3"
    by (simp_all add: wrap64_def)
  have c2: "same_config m m2"
    using runOnce_config [of m a1] by (simp add: m2_def same_config_def)
  have c3: "same_config m m3"
    using c2 runOnce_config [of m2 a2] by (simp add: m3_def same_config_def)
  have f2: "fails_rapidly m2 a2" and f3: "fails_rapidly m3 a3"
    using fail c2 c3 fails_rapidly_config by blast+
  have 1: "retry_loop m rc 0 delay (a1 # a2 # a3 # rest) = retry_loop m2 rc 1 d2 (a2 # a3 # rest)"
    by (subst retry_loop_rapid [OF fail(1)]) (simp add: rc w m2_def d2_def)
  have 2: "retry_loop m2 rc 1 d2 (a2 # a3 # rest) = retry_loop m3 rc 2 d3 (a3 # rest)"
    by (subst retry_loop_rapid [OF f2]) (simp add: rc w m3_def d3_def)
  have 3: "retry_loop m3 rc 2 d3 (a3 # rest) = runOnce m3 a3"
    by (subst retry_loop_rapid [OF f3]) (simp add: rc w)
  have "count_list (effects m2) Subscribed = count_list (effects m) Subscribed + 1"
    by (simp add: m2_def count_Subscribed_runOnce)
  then have "count_list (effects m3) Subscribed = count_list (effects m) Subscribed + 2"
    by (simp add: m3_def count_Subscribed_runOnce)
  then have "count_list (effects (snd (runOnce m3 a3))) Subscribed = count_list (effects m) Subscribed + 3"
    by (simp add: count_Subscribed_runOnce)
  then show ?thesis
    using c3 by (auto simp only: 1 2 3)
qed

lemma two_attempts:
  assumes rc: "MaxRetries rc = 2"
    and fail: "fails_rapidly m a1" "fails_rapidly m a2"
  shows "fst (retry_loop m rc 0 delay [a1, a2]) = Reconnecting"
proof -
  define m2 where "m2 = (snd (runOnce m a1))\<lparr>effects := effects (snd (runOnce m a1)) @ [Slept delay]\<rparr>"
  have w: "wrap64 1 = 1" "wrap64 2 = 2"
    by (simp_all add: wrap64_def)
  have "same_config m m2"
    using runOnce_config [of m a1] by (simp add: m2_def same_config_def)
  then have f2: "fails_rapidly m2 a2"
    using fail fails_rapidly_config by blast
  have 2: "fst (retry_loop m2 rc 1 d [a2]) = Reconnecting" for d
    by (subst retry_loop_rapid [OF f2]) (simp add: rc w)
  have 1: "retry_loop m rc 0 delay [a1, a2]
      = retry_loop m2 rc 1
          (if wrap64 (delay * 2) > MaxDelay rc then MaxDelay rc else wrap64 (delay * 2)) [a2]"
    by (subst retry_loop_rapid [OF fail(1)]) (simp add: rc w m2_def)
  show ?thesis
    by (simp only: 1 2)
qed

subsection \<open>Sessions\<close>

lemma gatherContainers_fst_effects [simp]:
  "fst (gatherContainers (m\<lparr>effects := es\<rparr>) cl) = fst (gatherContainers m cl)"
  by (simp add: gatherContainers_fst split: sum.split)

lemma gather_fst_effects [simp]: "fst (gather (m\<lparr>effects := es\<rparr>) cl) = fst (gather m cl)"
  by (simp add: gather_fst)

lemma runOnce_initial_error:
  assumes "ContainerList (initial a) = Inl err"
  shows "fst (runOnce m a) = Returned (Some (Wrapped ''failed to refresh containers'' err))"
  using assms by (simp add: runOnce_eq gather_fst)

lemma runOnce_later_error:
  assumes before: "runOnce m (a\<lparr>wakeups := before\<rparr>) = (Selecting g, m')"
    and timer: "timer_case (received w)" "select_ready g (now w) (received w)"
    and err: "ContainerList (client w) = Inl err"
  shows "fst (runOnce m (a\<lparr>wakeups := before @ w # after\<rparr>))
    = Returned (Some (Wrapped ''failed to refresh containers'' err))"
proof -
  let ?m = "snd (gather (m\<lparr>effects := effects m @ [Subscribed]\<rparr>) (initial a))"
  let ?g = "\<lparr>debounceTimer = None, maxDebounceTimer = None,
    idleTicker = created a + maxIdleTime m, waiting = False\<rparr>"
  have ok: "fst (gather m (initial a)) = None \<and> \<not> maxIdleTime m \<le> 0"
    using before by (auto simp: runOnce_eq split: option.splits if_splits)
  then have loop: "select_loop ?m ?g before = (Selecting g, m')"
    using before by (simp add: runOnce_eq)
  have "fst (select_step m' g w) = Returned (Some (Wrapped ''failed to refresh containers'' err))"
    using timer err by (simp add: select_step_timer gather_fst)
  then have "fst (select_loop m' g (w # after))
      = Returned (Some (Wrapped ''failed to refresh containers'' err))"
    by (simp add: select_loop_Cons)
  then show ?thesis
    using ok loop by (simp add: runOnce_eq select_loop_append)
qed

lemma runOnce_start:
  "effects (snd (runOnce m (a\<lparr>wakeups := []\<rparr>)))
     = effects (snd (gather (m\<lparr>effects := effects m @ [Subscribed]\<rparr>) (initial a)))"
  by (simp add: runOnce_eq split: option.split)

lemma runOnce_start_first:
  "\<exists>es. effects (snd (runOnce m a)) = effects (snd (runOnce m (a\<lparr>wakeups := []\<rparr>))) @ es"
proof -
  let ?m = "snd (gather (m\<lparr>effects := effects m @ [Subscribed]\<rparr>) (initial a))"
  have "\<exists>es. effects (snd (select_loop ?m g ws)) = effects ?m @ es" for g ws
    using select_loop_effects by blast
  then show ?thesis
    by (simp add: runOnce_start) (simp add: runOnce_eq split: option.split)
qed

subsection \<open>The test data at work\<close>

lemma pull_docker1:
  "convertContainer m = (\<lambda>inspect. inspect) \<Longrightarrow> filterF m = None \<Longrightarrow>
   fst (gatherContainers m docker1) = Inr [web1, exited]"
  by (simp add: gatherContainers_fst docker1_def inspectable_def accepted_def)

lemma pull_docker2:
  "convertContainer m = (\<lambda>inspect. inspect) \<Longrightarrow> filterF m = None \<Longrightarrow>
   fst (gatherContainers m docker2) = Inr [exited, web2]"
  by (simp add: gatherContainers_fst docker2_def inspectable_def accepted_def)

lemma runOnce_session_idle:
  assumes "convertContainer m = (\<lambda>inspect. inspect)" "filterF m = None" "maxIdleTime m > 0"
  shows "runOnce m (session_idle\<lparr>wakeups := []\<rparr>) =
     (Selecting (idle_gate (maxIdleTime m)),
      snd (gather (m\<lparr>effects := effects m @ [Subscribed]\<rparr>) docker1))"
proof -
  have "fst (gatherContainers (m\<lparr>effects := effects m @ [Subscribed]\<rparr>) docker1) = Inr [web1, exited]"
    using assms by (intro pull_docker1) simp_all
  then show ?thesis
    using assms(3)
    by (simp add: runOnce_eq gather_eq session_idle_def idle_gate_def)
qed

lemma fails_rapidly_session_down: "fails_rapidly m session_down"
proof -
  have "ContainerList (initial session_down) = Inl (ClientError ''docker api unreachable'')"
    by (simp add: session_down_def docker_down_def)
  then have "returns (fst (runOnce m session_down))"
    by (simp add: runOnce_initial_error returns_def)
  then show ?thesis
    by (simp add: fails_rapidly_def session_down_def Minute_def)
qed

section \<open>The claims about the monitor\<close>

text \<open>
  C9. A pull fails with the error of the listing call when that call fails. Otherwise it
  succeeds, whatever the inspection calls return: its result is made of the identities
  whose inspection succeeds, in the order of the listing, converted and filtered; an
  identity whose inspection fails is left out and its error goes nowhere.
\<close>

theorem gatherContainers_skips_failed_inspections:
  "fst (gatherContainers m cl) =
     (case ContainerList cl of
        Inl err \<Rightarrow> Inl err
      | Inr summaries \<Rightarrow>
          Inr (filter (accepted m)
                 (map (\<lambda>s. convertContainer m (projr (ContainerInspect cl s)))
                    (filter (inspectable cl) summaries))))"
  by (rule gatherContainers_fst)

theorem gatherContainers_skips_failed_inspections_witness:
  "fst (gatherContainers monitor0 docker1) = Inr [web1, exited]
   \<and> inspectable docker1 ''gone'' = False
   \<and> fst (gatherContainers monitor0 docker_down) = Inl (ClientError ''docker api unreachable'')"
  using gatherContainers_skips_failed_inspections [of monitor0 docker1]
    gatherContainers_skips_failed_inspections [of monitor0 docker_down]
  by (simp add: docker1_def docker_down_def monitor0_def inspectable_def accepted_def)

text \<open>
  C1. When a pull succeeds, \<^verbatim>\<open>gather\<close> calls the callback, once, exactly if
  \<^verbatim>\<open>previousHash\<close> is unset or differs from the hash of the pulled containers; it
  stores the new hash before it calls the callback, and afterwards \<^verbatim>\<open>previousHash\<close>
  is that hash. A later \<^verbatim>\<open>gather\<close>, with \<^verbatim>\<open>previousHash\<close> as the first one left it, that
  pulls the same containers up to order does not call the callback. Every trigger of
  the loop (a timer or ticker case that is ready) does to the monitor what \<^verbatim>\<open>gather\<close>
  does.
\<close>

theorem gather_delivers_on_change:
  assumes pulled: "fst (gatherContainers m cl) = Inr containers"
    and labels: "\<forall>c \<in> set containers. labels_ok c"
    and later: "previousHash m' = previousHash (snd (gather m cl))"
    and pulled': "fst (gatherContainers m' cl') = Inr containers'"
    and same: "Collection_abs containers = Collection_abs containers'"
  shows "calls (effects (snd (gather m cl)))
      = calls (effects m)
        @ (if previousHash m = None \<or> previousHash m \<noteq> Some (computeHash containers)
           then [containers] else [])
    \<and> effects (snd (gather m cl))
      = effects m @ [Listed]
        @ (if previousHash m = None \<or> previousHash m \<noteq> Some (computeHash containers)
           then [Stored (computeHash containers), Called containers] else [])
    \<and> previousHash (snd (gather m cl)) = Some (computeHash containers)
    \<and> calls (effects (snd (gather m' cl'))) = calls (effects m')
    \<and> (timer_case (received w) \<and> select_ready g (now w) (received w) \<longrightarrow>
        snd (select_step m g w) = snd (gather m (client w)))"
proof -
  have "computeHash containers = computeHash containers'"
    using same labels by (rule computeHash_abs)
  then have "previousHash m' = Some (computeHash containers')"
    using later pulled by (simp add: gather_eq)
  then have "calls (effects (snd (gather m' cl'))) = calls (effects m')"
    using pulled' by (simp add: gather_eq calls_append)
  moreover have "snd (select_step m g w) = snd (gather m (client w))"
    if "timer_case (received w)" "select_ready g (now w) (received w)"
    using that by (simp add: select_step_timer split: option.split)
  ultimately show ?thesis
    using pulled by (auto simp: gather_eq calls_append)
qed

theorem gather_delivers_on_change_witness:
  "calls (effects (snd (gather monitor0 docker1))) = [[web1, exited]]
   \<and> effects (snd (gather monitor0 docker1))
      = [Listed, Stored (computeHash [web1, exited]), Called [web1, exited]]
   \<and> calls (effects (snd (gather (snd (gather monitor0 docker1)) docker2))) = [[web1, exited]]
   \<and> [web1, exited] \<noteq> [exited, web2]
   \<and> snd (select_step monitor0 (idle_gate 30000000000)
        \<lparr>now = 30000000000, received = IdleTickerC, client = docker1\<rparr>)
      = snd (gather monitor0 docker1)"
proof -
  let ?m' = "snd (gather monitor0 docker1)"
  let ?w = "\<lparr>now = 30000000000, received = IdleTickerC, client = docker1\<rparr>"
  have cfg: "convertContainer ?m' = (\<lambda>inspect. inspect)" "filterF ?m' = None"
    using gather_config [of monitor0 docker1] by (simp_all add: same_config_def monitor0_def)
  have 1: "fst (gatherContainers monitor0 docker1) = Inr [web1, exited]"
    by (rule pull_docker1) (simp_all add: monitor0_def)
  have 2: "fst (gatherContainers ?m' docker2) = Inr [exited, web2]"
    using cfg by (rule pull_docker2)
  have 3: "previousHash monitor0 = None" "effects monitor0 = []"
    by (simp_all add: monitor0_def)
  have 4: "[web1, exited] \<noteq> [exited, web2]"
    by (simp add: web1_def exited_def)
  have 5: "timer_case (received ?w) \<and> select_ready (idle_gate 30000000000) (now ?w) (received ?w)"
    by (simp add: timer_case_def select_ready_def idle_gate_def)
  from gather_delivers_on_change [OF 1 labels_ok_test_data refl 2 Collection_abs_test_data,
      of ?w "idle_gate 30000000000"] 3 4 5
  show ?thesis
    by simp
qed

text \<open>
  C4. The claim is that every session start, also after a reconnect, calls the callback
  when its pull succeeds, whatever \<^verbatim>\<open>previousHash\<close> is. The monitor keeps
  \<^verbatim>\<open>previousHash\<close> from one session to the next: a first session delivers the
  containers of \<open>docker1\<close> and loses its event stream, the supervisor sleeps a second and
  starts a second session, which lists the same containers and calls nothing; then it
  waits in its loop.
\<close>

theorem reconnect_without_change_counterexample:
  "fst (run (monitor_reconnecting backoff_1_8) session_dropped [session_idle])
     = Selecting (idle_gate 30000000000)
   \<and> effects (snd (run (monitor_reconnecting backoff_1_8) session_dropped [session_idle]))
     = [Subscribed, Listed, Stored (computeHash [web1, exited]), Called [web1, exited],
        Slept 1000000000, Subscribed, Listed]"
  by code_simp

text \<open>
  C4, as amended. A session begins with what \<^verbatim>\<open>runOnce\<close> does before its first
  \<^verbatim>\<open>select\<close>: it subscribes and pulls, and when the pull succeeds it calls the callback
  exactly if \<^verbatim>\<open>previousHash\<close> is unset or differs from the new hash. \<^verbatim>\<open>run\<close> begins
  with a session on the monitor it is given; \<^verbatim>\<open>Run\<close> makes that monitor with
  \<^verbatim>\<open>previousHash\<close> unset, so that the first session of a run calls the callback whenever
  its pull succeeds.
\<close>

theorem session_start_refreshes:
  "(\<exists>es. effects (snd (runOnce m a)) = effects (snd (runOnce m (a\<lparr>wakeups := []\<rparr>))) @ es)
   \<and> (\<exists>es. effects (snd (runOnce m (a\<lparr>wakeups := []\<rparr>))) = effects m @ Subscribed # Listed # es)
   \<and> (fst (gatherContainers m (initial a)) = Inr containers \<longrightarrow>
        effects (snd (runOnce m (a\<lparr>wakeups := []\<rparr>)))
          = effects m @ [Subscribed, Listed]
            @ (if previousHash m = None \<or> previousHash m \<noteq> Some (computeHash containers)
               then [Stored (computeHash containers), Called containers] else []))
   \<and> (fst (gatherContainers m (initial a)) = Inr containers \<and> previousHash m = None \<longrightarrow>
        (\<exists>es. effects (snd (run m a as))
          = effects m @ [Subscribed, Listed, Stored (computeHash containers), Called containers]
            @ es))"
proof -
  have start: "effects (snd (runOnce m (a\<lparr>wakeups := []\<rparr>)))
          = effects m @ [Subscribed, Listed]
            @ (if previousHash m = None \<or> previousHash m \<noteq> Some (computeHash containers)
               then [Stored (computeHash containers), Called containers] else [])"
    if "fst (gatherContainers m (initial a)) = Inr containers"
    using that by (auto simp: runOnce_start gather_eq)
  obtain es1 where es1: "effects (snd (runOnce m a))
      = effects (snd (runOnce m (a\<lparr>wakeups := []\<rparr>))) @ es1"
    using runOnce_start_first by blast
  obtain es2 where es2: "effects (snd (run m a as)) = effects (snd (runOnce m a)) @ es2"
    using run_first by blast
  have "\<exists>es. effects (snd (runOnce m (a\<lparr>wakeups := []\<rparr>))) = effects m @ Subscribed # Listed # es"
    using runOnce_effects [of m "a\<lparr>wakeups := []\<rparr>"] by blast
  with start es1 es2 show ?thesis
    by auto
qed

theorem session_start_refreshes_witness:
  "effects (snd (runOnce monitor0 (session_dropped\<lparr>wakeups := []\<rparr>)))
     = [Subscribed, Listed, Stored (computeHash [web1, exited]), Called [web1, exited]]
   \<and> (\<exists>es. effects (snd (run monitor0 session_dropped []))
        = [Subscribed, Listed, Stored (computeHash [web1, exited]), Called [web1, exited]] @ es)"
proof -
  have 1: "fst (gatherContainers monitor0 (initial session_dropped)) = Inr [web1, exited]"
    unfolding session_dropped_def by (simp, rule pull_docker1) (simp_all add: monitor0_def)
  have 2: "previousHash monitor0 = None" "effects monitor0 = []"
    by (simp_all add: monitor0_def)
  from session_start_refreshes [of monitor0 session_dropped "[web1, exited]" "[]"] 1 2
  show ?thesis
    by simp
qed

text \<open>
  C6. Without auto-reconnect, a listing error during a pull, be it the initial pull of
  the session or the pull of a later trigger, ends the session, and \<^verbatim>\<open>run\<close> returns
  that error wrapped. With auto-reconnect and \<^verbatim>\<open>MaxRetries = 2\<close>, when the sessions
  fail rapidly, \<^verbatim>\<open>run\<close> is about to start a third session after two of them, and
  returns what the third session returns, whatever further sessions are scripted; it has
  subscribed three times by then.
\<close>

theorem pull_error_ends_session_and_retries_are_counted:
  "(reconnect m = None \<and> ContainerList (initial a) = Inl err \<longrightarrow>
      fst (run m a as) = Returned (Some (Wrapped ''failed to refresh containers'' err)))
   \<and> (reconnect m = None \<and> runOnce m (a\<lparr>wakeups := before\<rparr>) = (Selecting g, m')
      \<and> timer_case (received w) \<and> select_ready g (now w) (received w)
      \<and> ContainerList (client w) = Inl err \<longrightarrow>
      fst (run m (a\<lparr>wakeups := before @ w # after\<rparr>) as)
        = Returned (Some (Wrapped ''failed to refresh containers'' err)))
   \<and> (reconnect m = Some rc \<and> MaxRetries rc = 2
      \<and> fails_rapidly m a1 \<and> fails_rapidly m a2 \<and> fails_rapidly m a3 \<longrightarrow>
      fst (run m a1 [a2]) = Reconnecting
      \<and> (\<exists>m3. same_config m m3 \<and> run m a1 (a2 # a3 # rest) = runOnce m3 a3)
      \<and> returns (fst (run m a1 (a2 # a3 # rest)))
      \<and> count_list (effects (snd (run m a1 (a2 # a3 # rest)))) Subscribed
        = count_list (effects m) Subscribed + 3)"
proof (intro conjI impI)
  assume "reconnect m = None \<and> ContainerList (initial a) = Inl err"
  then show "fst (run m a as) = Returned (Some (Wrapped ''failed to refresh containers'' err))"
    by (simp add: run_def runOnce_initial_error)
next
  assume "reconnect m = None \<and> runOnce m (a\<lparr>wakeups := before\<rparr>) = (Selecting g, m')
      \<and> timer_case (received w) \<and> select_ready g (now w) (received w)
      \<and> ContainerList (client w) = Inl err"
  then show "fst (run m (a\<lparr>wakeups := before @ w # after\<rparr>) as)
        = Returned (Some (Wrapped ''failed to refresh containers'' err))"
    by (simp add: run_def runOnce_later_error)
next
  assume a: "reconnect m = Some rc \<and> MaxRetries rc = 2
      \<and> fails_rapidly m a1 \<and> fails_rapidly m a2 \<and> fails_rapidly m a3"
  then have r: "run m a1 (a2 # a3 # rest) = retry_loop m rc 0 (MinDelay rc) (a1 # a2 # a3 # rest)"
    by (simp add: run_def runWithRetry_def)
  from a three_attempts [of rc m a1 a2 a3 "MinDelay rc" rest]
  obtain m3 where m3: "same_config m m3" "run m a1 (a2 # a3 # rest) = runOnce m3 a3"
    and n: "count_list (effects (snd (run m a1 (a2 # a3 # rest)))) Subscribed
      = count_list (effects m) Subscribed + 3"
    unfolding r by blast
  from m3 show "\<exists>m3. same_config m m3 \<and> run m a1 (a2 # a3 # rest) = runOnce m3 a3"
    by blast
  from a have "fst (retry_loop m rc 0 (MinDelay rc) [a1, a2]) = Reconnecting"
    by (intro two_attempts) simp_all
  with a show "fst (run m a1 [a2]) = Reconnecting"
    by (simp add: run_def runWithRetry_def)
  from a m3 show "returns (fst (run m a1 (a2 # a3 # rest)))"
    by (simp add: fails_rapidly_def runOnce_status [of m m3])
  from n show "count_list (effects (snd (run m a1 (a2 # a3 # rest)))) Subscribed
      = count_list (effects m) Subscribed + 3" .
qed

theorem pull_error_ends_session_and_retries_are_counted_witness:
  "fst (run (monitor_reconnecting backoff_two_retries) session_down [session_down]) = Reconnecting
   \<and> fst (run monitor0 session_down [])
     = Returned (Some (Wrapped ''failed to refresh containers'' (ClientError ''docker api unreachable'')))
   \<and> fst (run monitor0 (session_idle\<lparr>wakeups := [] @ idle_tick_down # []\<rparr>) [])
     = Returned (Some (Wrapped ''failed to refresh containers'' (ClientError ''docker api unreachable'')))
   \<and> returns (fst (run (monitor_reconnecting backoff_two_retries) session_down
        [session_down, session_down, session_idle]))
   \<and> count_list (effects (snd (run (monitor_reconnecting backoff_two_retries) session_down
        [session_down, session_down, session_idle]))) Subscribed = 3"
proof -
  let ?g = "idle_gate (maxIdleTime monitor0)"
  let ?m' = "snd (gather (monitor0\<lparr>effects := effects monitor0 @ [Subscribed]\<rparr>) docker1)"
  let ?m = "monitor_reconnecting backoff_two_retries"
  have none: "reconnect monitor0 = None"
    by (simp add: monitor0_def)
  have down: "ContainerList (initial session_down) = Inl (ClientError ''docker api unreachable'')"
    by (simp add: session_down_def docker_down_def)
  have idle: "runOnce monitor0 (session_idle\<lparr>wakeups := []\<rparr>) = (Selecting ?g, ?m')"
    by (rule runOnce_session_idle) (simp_all add: monitor0_def)
  have tick: "timer_case (received idle_tick_down)"
      "select_ready ?g (now idle_tick_down) (received idle_tick_down)"
      "ContainerList (client idle_tick_down) = Inl (ClientError ''docker api unreachable'')"
    by (simp_all add: idle_tick_down_def timer_case_def select_ready_def monitor0_def
        docker_down_def idle_gate_def)
  have some: "reconnect ?m = Some backoff_two_retries" "MaxRetries backoff_two_retries = 2"
      "effects ?m = []"
    by (simp_all add: monitor_reconnecting_def backoff_two_retries_def monitor0_def)
  note inst1 = pull_error_ends_session_and_retries_are_counted
    [where m = monitor0 and a = session_down and err = "ClientError ''docker api unreachable''"
      and as = "[]"]
  note inst2 = pull_error_ends_session_and_retries_are_counted
    [where m = monitor0 and a = session_idle and before = "[]" and g = ?g and m' = ?m'
      and w = idle_tick_down and err = "ClientError ''docker api unreachable''" and after = "[]"
      and as = "[]"]
  note inst3 = pull_error_ends_session_and_retries_are_counted
    [where m = ?m and rc = backoff_two_retries and ?a1.0 = session_down and ?a2.0 = session_down
      and ?a3.0 = session_down and rest = "[session_idle]"]
  from inst1 none down have 1: "fst (run monitor0 session_down [])
     = Returned (Some (Wrapped ''failed to refresh containers'' (ClientError ''docker api unreachable'')))"
    by blast
  from inst2 none idle tick
  have 2: "fst (run monitor0 (session_idle\<lparr>wakeups := [] @ idle_tick_down # []\<rparr>) [])
     = Returned (Some (Wrapped ''failed to refresh containers'' (ClientError ''docker api unreachable'')))"
    by blast
  from inst3 some fails_rapidly_session_down
  have 3: "fst (run ?m session_down [session_down]) = Reconnecting
    \<and> returns (fst (run ?m session_down [session_down, session_down, session_idle]))
    \<and> count_list (effects (snd (run ?m session_down [session_down, session_down, session_idle]))) Subscribed
      = count_list (effects ?m) Subscribed + 3"
    by blast
  from 1 2 3 some(3) show ?thesis
    by simp
qed

text \<open>
  C7. The claim is that, for every configuration, the \<open>k\<close>-th delay slept across rapid
  failures is \<open>min (MinDelay * 2 ^ (k - 1)) MaxDelay\<close>. The loop starts at \<^verbatim>\<open>MinDelay\<close> and
  applies the cap only after doubling: with a minimum of 10 seconds above a maximum of 8
  seconds the first delay slept is 10 seconds, where the formula gives 8.
\<close>

theorem backoff_first_delay_counterexample:
  "sleeps (effects (snd (runWithRetry (monitor_reconnecting backoff_10_8) backoff_10_8 [session_down])))
     = [10000000000]
   \<and> min (MinDelay backoff_10_8 * 2 ^ (1 - 1)) (MaxDelay backoff_10_8) = 8000000000"
  by code_simp

text \<open>
  C7, as amended. For a configuration with \<open>0 \<le> MinDelay \<le> MaxDelay < 2 ^ 62\<close>
  nanoseconds, where doubling a delay cannot wrap around, the delays slept across
  sessions that all fail rapidly, as long as the retries are not used up, are
  \<open>min (MinDelay * 2 ^ (k - 1)) MaxDelay\<close> for \<open>k = 1, 2, \<dots>\<close>. And when a session has
  lasted a minute or more, the loop goes on from it as \<^verbatim>\<open>runWithRetry\<close> does from its
  start, whatever \<open>attempt\<close> and \<open>delay\<close> were: both are reset.
\<close>

theorem backoff_delays_double_up_to_the_cap:
  assumes "0 \<le> MinDelay rc" "MinDelay rc \<le> MaxDelay rc" "MaxDelay rc < 2 ^ 62"
    and "MaxRetries rc < 2 ^ 63"
    and "\<forall>a \<in> set as. fails_rapidly m a"
    and "MaxRetries rc \<le> 0 \<or> int (length as) \<le> MaxRetries rc"
  shows "sleeps (effects (snd (runWithRetry m rc as)))
      = sleeps (effects m)
        @ map (\<lambda>k. min (MinDelay rc * 2 ^ (k - 1)) (MaxDelay rc)) [1..<Suc (length as)]
    \<and> (Minute \<le> elapsed a \<longrightarrow>
        retry_loop m' rc attempt delay (a # as') = runWithRetry m' rc (a # as'))"
proof -
  have "sleeps (effects (snd (retry_loop m rc 0 (MinDelay rc) as)))
      = sleeps (effects m) @ map (\<lambda>i. min (MinDelay rc * 2 ^ (0 + i)) (MaxDelay rc)) [0..<length as]"
    using retry_loop_backoff [OF assms(1-5) same_config_refl, of "MinDelay rc" 0 0] assms(2,6)
    by (simp add: min_def)
  moreover have "map (\<lambda>k. min (MinDelay rc * 2 ^ (k - 1)) (MaxDelay rc)) [1..<Suc (length as)]
      = map (\<lambda>i. min (MinDelay rc * 2 ^ (0 + i)) (MaxDelay rc)) [0..<length as]"
    by (simp add: map_Suc_upt [symmetric] del: upt_Suc)
  ultimately show ?thesis
    using retry_loop_stable [of a m' rc attempt delay as']
    by (simp add: runWithRetry_def del: upt_Suc)
qed

theorem backoff_delays_double_up_to_the_cap_witness:
  "sleeps (effects (snd (runWithRetry (monitor_reconnecting backoff_1_8) backoff_1_8
      [session_down, session_down, session_down, session_down, session_down])))
     = [1000000000, 2000000000, 4000000000, 8000000000, 8000000000]
   \<and> retry_loop (monitor_reconnecting backoff_1_8) backoff_1_8 4 8000000000 [session_stable]
     = runWithRetry (monitor_reconnecting backoff_1_8) backoff_1_8 [session_stable]"
proof -
  let ?m = "monitor_reconnecting backoff_1_8"
  let ?as = "[session_down, session_down, session_down, session_down, session_down]"
  have rc: "0 \<le> MinDelay backoff_1_8" "MinDelay backoff_1_8 \<le> MaxDelay backoff_1_8"
      "MaxDelay backoff_1_8 < 2 ^ 62" "MaxRetries backoff_1_8 < 2 ^ 63"
    by (simp_all add: backoff_1_8_def)
  have fail: "\<forall>a \<in> set ?as. fails_rapidly ?m a"
    by (simp add: fails_rapidly_session_down)
  have unbounded: "MaxRetries backoff_1_8 \<le> 0 \<or> int (length ?as) \<le> MaxRetries backoff_1_8"
    by (simp add: backoff_1_8_def)
  have stable: "Minute \<le> elapsed session_stable"
    by (simp add: session_stable_def Minute_def)
  have "[1..<Suc (length ?as)] = [1, 2, 3, 4, 5]"
    by (simp add: upt_rec)
  with backoff_delays_double_up_to_the_cap [OF rc fail unbounded, of session_stable ?m 4 8000000000 "[]"]
    stable
  show ?thesis
    by (simp add: backoff_1_8_def monitor_reconnecting_def monitor0_def)
qed

subsection \<open>The max-debounce timer\<close>

lemma burst_Suc:
  "burst t0 gap (Suc n) cl
     = burst t0 gap n cl @ [\<lparr>now = t0 + gap * int n, received = EventCh, client = cl\<rparr>]"
  by (simp add: burst_def)

lemma select_loop_burst:
  "select_loop m (idle_gate tick) (burst t0 gap (Suc n) cl)
     = (Selecting (after_burst m t0 gap (Suc n)), m)"
proof (induction n)
  case 0
  show ?case
    by (simp add: burst_def select_loop_Cons select_step_event idle_gate_def after_burst_def)
next
  case (Suc n)
  have "select_step m (after_burst m t0 gap (Suc n))
      \<lparr>now = t0 + gap * int (Suc n), received = EventCh, client = cl\<rparr>
    = (Selecting (after_burst m t0 gap (Suc (Suc n))), m)"
    by (simp add: select_step_event after_burst_def)
  then show ?case
    by (simp add: burst_Suc [of _ _ "Suc n"] select_loop_append Suc.IH select_loop_Cons
      del: of_nat_Suc)
qed

lemma armed_once:
  assumes "select_step m h w = (Selecting h', m')"
  shows "maxDebounceTimer h' = None \<or> maxDebounceTimer h' = maxDebounceTimer h
    \<or> (received w = EventCh \<and> \<not> waiting h \<and> waiting h'
        \<and> maxDebounceTimer h' = Some (now w + maxDebounceTime m))"
proof (cases "select_ready h (now w) (received w)")
  case False
  with assms show ?thesis
    by (simp add: select_step_not_ready)
next
  case ready: True
  show ?thesis
  proof (cases "timer_case (received w)")
    case True
    with ready assms show ?thesis
      by (auto simp: select_step_timer split: option.splits if_splits)
  next
    case False
    with assms have "received w = EventCh"
      using select_step_other(2) [of w m h] by (auto simp: returns_def)
    with assms show ?thesis
      by (auto simp: select_step_event split: if_splits)
  qed
qed

lemma after_burst_ready:
  assumes "0 < gap" "gap < debounce m" "gap < maxIdleTime m"
    and "timer_case c" and "t \<le> t0 + gap * int n"
  shows "select_ready (after_burst m t0 gap n) t c
    \<longleftrightarrow> c = MaxDebounceTimerC \<and> t0 + maxDebounceTime m \<le> t"
  using assms
  by (cases c) (auto simp: select_ready_def after_burst_def timer_case_def algebra_simps)

text \<open>
  C2. A step of the loop sets the max-debounce timer to a new reading only when it
  receives an arrival while no arrival is pending, and then it does; an arrival while one
  is pending restarts the debounce timer and leaves the max-debounce timer alone.
  Receiving from the max-debounce timer pulls and, when the pull succeeds, stops the
  debounce timer and leaves no arrival pending. Hence, with arrivals that follow each
  other at a distance \<open>gap\<close> shorter than the debounce time and the idle time (a tenth of
  the debounce time, say), the first at \<open>t0\<close> and none later than
  \<open>t0 + maxDebounceTime\<close>: after \<open>n\<close> of them the loop is waiting with its max-debounce
  timer due at \<open>t0 + maxDebounceTime\<close>; until the next arrival is due, no timer can be
  received from but the max-debounce timer, and that one from \<open>t0 + maxDebounceTime\<close> on;
  and receiving from it then pulls and, when the pull succeeds, leaves the loop with no
  arrival pending and both timers stopped.
\<close>

theorem max_debounce_bounds_the_wait:
  assumes "0 < gap" "gap < debounce m" "gap < maxIdleTime m"
    and "0 < n" "gap * (int n - 1) \<le> maxDebounceTime m"
  shows "(select_step m h w = (Selecting h', m') \<longrightarrow>
        maxDebounceTimer h' = None \<or> maxDebounceTimer h' = maxDebounceTimer h
        \<or> (received w = EventCh \<and> \<not> waiting h \<and> waiting h'
            \<and> maxDebounceTimer h' = Some (now w + maxDebounceTime m)))
    \<and> (received w = EventCh \<longrightarrow>
        select_step m h w =
          (Selecting (h\<lparr>idleTicker := now w + maxIdleTime m,
                       debounceTimer := Some (now w + debounce m),
                       maxDebounceTimer :=
                         if waiting h then maxDebounceTimer h
                         else Some (now w + maxDebounceTime m),
                       waiting := True\<rparr>), m))
    \<and> (received w = MaxDebounceTimerC \<and> select_ready h (now w) MaxDebounceTimerC
        \<and> fst (gather m (client w)) = None \<longrightarrow>
        fst (select_step m h w) =
          Selecting (h\<lparr>debounceTimer := None, maxDebounceTimer := None,
                      idleTicker := now w + maxIdleTime m, waiting := False\<rparr>))
    \<and> select_loop m (idle_gate tick) (burst t0 gap n cl) = (Selecting (after_burst m t0 gap n), m)
    \<and> maxDebounceTimer (after_burst m t0 gap n) = Some (t0 + maxDebounceTime m)
    \<and> (\<forall>t c. timer_case c \<and> t \<le> t0 + gap * int n \<longrightarrow>
          select_ready (after_burst m t0 gap n) t c
            = (c = MaxDebounceTimerC \<and> t0 + maxDebounceTime m \<le> t))
    \<and> select_loop m (idle_gate tick)
          (burst t0 gap n cl
           @ [\<lparr>now = t0 + maxDebounceTime m, received = MaxDebounceTimerC, client = cl'\<rparr>])
        = (case fst (gather m cl') of
             Some err \<Rightarrow> (Returned (Some err), snd (gather m cl'))
           | None \<Rightarrow>
               (Selecting (idle_gate (t0 + maxDebounceTime m + maxIdleTime m)), snd (gather m cl')))
    \<and> (\<exists>es. effects (snd (gather m cl')) = effects m @ Listed # es)"
proof (intro conjI impI allI)
  assume "select_step m h w = (Selecting h', m')"
  then show "maxDebounceTimer h' = None \<or> maxDebounceTimer h' = maxDebounceTimer h
        \<or> (received w = EventCh \<and> \<not> waiting h \<and> waiting h'
            \<and> maxDebounceTimer h' = Some (now w + maxDebounceTime m))"
    by (rule armed_once)
next
  assume "received w = EventCh"
  then show "select_step m h w =
          (Selecting (h\<lparr>idleTicker := now w + maxIdleTime m,
                       debounceTimer := Some (now w + debounce m),
                       maxDebounceTimer :=
                         if waiting h then maxDebounceTimer h
                         else Some (now w + maxDebounceTime m),
                       waiting := True\<rparr>), m)"
    by (simp add: select_step_event)
next
  assume "received w = MaxDebounceTimerC \<and> select_ready h (now w) MaxDebounceTimerC
        \<and> fst (gather m (client w)) = None"
  then show "fst (select_step m h w) =
          Selecting (h\<lparr>debounceTimer := None, maxDebounceTimer := None,
                      idleTicker := now w + maxIdleTime m, waiting := False\<rparr>)"
    by (simp add: select_step_timer timer_case_def)
next
  from assms(4) obtain k where "n = Suc k"
    by (cases n) simp_all
  then show loop: "select_loop m (idle_gate tick) (burst t0 gap n cl)
      = (Selecting (after_burst m t0 gap n), m)"
    by (simp only: select_loop_burst)
  have "select_step m (after_burst m t0 gap n)
          \<lparr>now = t0 + maxDebounceTime m, received = MaxDebounceTimerC, client = cl'\<rparr>
        = (case fst (gather m cl') of
             Some err \<Rightarrow> (Returned (Some err), snd (gather m cl'))
           | None \<Rightarrow>
               (Selecting (idle_gate (t0 + maxDebounceTime m + maxIdleTime m)), snd (gather m cl')))"
    by (subst select_step_timer)
      (simp_all add: timer_case_def select_ready_def after_burst_def idle_gate_def split: option.split)
  then show "select_loop m (idle_gate tick)
          (burst t0 gap n cl
           @ [\<lparr>now = t0 + maxDebounceTime m, received = MaxDebounceTimerC, client = cl'\<rparr>])
        = (case fst (gather m cl') of
             Some err \<Rightarrow> (Returned (Some err), snd (gather m cl'))
           | None \<Rightarrow>
               (Selecting (idle_gate (t0 + maxDebounceTime m + maxIdleTime m)), snd (gather m cl')))"
    by (simp add: select_loop_append loop select_loop_Cons split: option.split)
next
  show "maxDebounceTimer (after_burst m t0 gap n) = Some (t0 + maxDebounceTime m)"
    by (simp add: after_burst_def)
next
  fix t c
  assume "timer_case c \<and> t \<le> t0 + gap * int n"
  then show "select_ready (after_burst m t0 gap n) t c
            = (c = MaxDebounceTimerC \<and> t0 + maxDebounceTime m \<le> t)"
    using assms(1-3) by (intro after_burst_ready) simp_all
next
  show "\<exists>es. effects (snd (gather m cl')) = effects m @ Listed # es"
    using gather_effects [of m cl'] by blast
qed

theorem max_debounce_bounds_the_wait_witness:
  "select_loop monitor0 (idle_gate 30000000000) (burst 0 10000000 501 docker1)
     = (Selecting (after_burst monitor0 0 10000000 501), monitor0)
   \<and> select_ready (after_burst monitor0 0 10000000 501) 4999999999 MaxDebounceTimerC = False
   \<and> select_ready (after_burst monitor0 0 10000000 501) 5000000000 MaxDebounceTimerC = True
   \<and> select_ready (after_burst monitor0 0 10000000 501) 5000000000 DebounceTimerC = False
   \<and> select_ready (after_burst monitor0 0 10000000 501) 5000000000 IdleTickerC = False
   \<and> fst (select_loop monitor0 (idle_gate 30000000000)
        (burst 0 10000000 501 docker1
         @ [\<lparr>now = 5000000000, received = MaxDebounceTimerC, client = docker1\<rparr>]))
     = Selecting (idle_gate 35000000000)"
proof -
  have cfg: "(0::int) < 10000000" "10000000 < debounce monitor0" "10000000 < maxIdleTime monitor0"
      "(0::nat) < 501" "10000000 * (int 501 - 1) \<le> maxDebounceTime monitor0"
    by (simp_all add: monitor0_def)
  have times: "maxDebounceTime monitor0 = 5000000000" "maxIdleTime monitor0 = 30000000000"
    by (simp_all add: monitor0_def)
  have pull: "fst (gather monitor0 docker1) = None"
    by (simp add: gather_fst docker1_def)
  have timers: "timer_case MaxDebounceTimerC" "timer_case DebounceTimerC" "timer_case IdleTickerC"
    by (simp_all add: timer_case_def)
  note inst = max_debounce_bounds_the_wait [OF cfg, where ?t0.0 = 0 and tick = 30000000000
      and cl = docker1 and cl' = docker1]
  from inst have loop: "select_loop monitor0 (idle_gate 30000000000) (burst 0 10000000 501 docker1)
     = (Selecting (after_burst monitor0 0 10000000 501), monitor0)"
    by blast
  from inst have ready: "timer_case c \<and> t \<le> 0 + 10000000 * int 501 \<longrightarrow>
      select_ready (after_burst monitor0 0 10000000 501) t c
        = (c = MaxDebounceTimerC \<and> 0 + maxDebounceTime monitor0 \<le> t)" for t c
    by blast
  from inst have fire: "select_loop monitor0 (idle_gate 30000000000)
        (burst 0 10000000 501 docker1
         @ [\<lparr>now = 0 + maxDebounceTime monitor0, received = MaxDebounceTimerC, client = docker1\<rparr>])
     = (case fst (gather monitor0 docker1) of
             Some err \<Rightarrow> (Returned (Some err), snd (gather monitor0 docker1))
           | None \<Rightarrow>
               (Selecting (idle_gate (0 + maxDebounceTime monitor0 + maxIdleTime monitor0)),
                snd (gather monitor0 docker1)))"
    by blast
  from ready [of MaxDebounceTimerC 4999999999] ready [of MaxDebounceTimerC 5000000000]
    ready [of DebounceTimerC 5000000000] ready [of IdleTickerC 5000000000] timers loop fire pull
  show ?thesis
    by (simp add: times)
qed

end
